theory Spec2Isabelle
  imports Complex_Main
begin

section \<open>IEEE-754 binary64 values and Python's float operations\<close>

text \<open>
  \<^verbatim>\<open>src/app.py\<close> computes with Python floats and \<^verbatim>\<open>numpy.float64\<close> scalars, both IEEE-754
  binary64. A value is a finite real (the exact value of the double), one of the two
  infinities, or NaN. The two zeros are identified: no operation of this program
  separates them (the only division has the non-zero divisor \<^verbatim>\<open>1.0 - Q_INDEX\<close>, and a
  difference \<^verbatim>\<open>1.0 - x\<close> is never the negative zero under round-to-nearest).
\<close>

datatype float64 = Finite real | PInf | NInf | NaN

text \<open>Round to nearest, ties to even, on the integers.\<close>

definition round_half_even :: "real \<Rightarrow> int" where
  "round_half_even x =
     (let f = \<lfloor>x\<rfloor>; d = x - of_int f
      in if d < 1 / 2 then f
         else if 1 / 2 < d then f + 1
         else if even f then f else f + 1)"

text \<open>
  The binade of a non-zero real, held at the exponent of the subnormal numbers, and the
  spacing of the doubles there: 53 significant bits, least exponent \<open>-1022\<close>.
\<close>

definition binade :: "real \<Rightarrow> int" where
  "binade x = max \<lfloor>log 2 \<bar>x\<bar>\<rfloor> (- 1022)"

definition ulp :: "real \<Rightarrow> real" where
  "ulp x = 2 powr real_of_int (binade x - 52)"

text \<open>Rounding to the nearest double with an unbounded exponent range.\<close>

definition rnd :: "real \<Rightarrow> real" where
  "rnd x = (if x = 0 then 0 else of_int (round_half_even (x / ulp x)) * ulp x)"

text \<open>The result of an operation whose exact value is \<open>x\<close>: overflow gives an infinity.\<close>

definition fl :: "real \<Rightarrow> float64" where
  "fl x = (let y = rnd x
           in if 2 ^ 1024 \<le> y then PInf
              else if y \<le> - (2 ^ 1024) then NInf
              else Finite y)"

text \<open>A decimal float literal of the source denotes the nearest double.\<close>

definition lit :: "real \<Rightarrow> float64" where
  "lit r = Finite (rnd r)"

fun fneg :: "float64 \<Rightarrow> float64" where
  "fneg (Finite x) = Finite (- x)"
| "fneg PInf = NInf"
| "fneg NInf = PInf"
| "fneg NaN = NaN"

fun fmul :: "float64 \<Rightarrow> float64 \<Rightarrow> float64" where
  "fmul NaN _ = NaN"
| "fmul _ NaN = NaN"
| "fmul (Finite x) (Finite y) = fl (x * y)"
| "fmul (Finite x) PInf = (if x = 0 then NaN else if 0 < x then PInf else NInf)"
| "fmul (Finite x) NInf = (if x = 0 then NaN else if 0 < x then NInf else PInf)"
| "fmul PInf (Finite y) = (if y = 0 then NaN else if 0 < y then PInf else NInf)"
| "fmul NInf (Finite y) = (if y = 0 then NaN else if 0 < y then NInf else PInf)"
| "fmul PInf PInf = PInf"
| "fmul PInf NInf = NInf"
| "fmul NInf PInf = NInf"
| "fmul NInf NInf = PInf"

fun fsub :: "float64 \<Rightarrow> float64 \<Rightarrow> float64" where
  "fsub NaN _ = NaN"
| "fsub _ NaN = NaN"
| "fsub (Finite x) (Finite y) = fl (x - y)"
| "fsub (Finite x) PInf = NInf"
| "fsub (Finite x) NInf = PInf"
| "fsub PInf PInf = NaN"
| "fsub NInf NInf = NaN"
| "fsub PInf _ = PInf"
| "fsub NInf _ = NInf"

text \<open>Comparisons: every comparison with NaN is false.\<close>

fun flt :: "float64 \<Rightarrow> float64 \<Rightarrow> bool" where
  "flt NaN _ = False"
| "flt _ NaN = False"
| "flt (Finite x) (Finite y) = (x < y)"
| "flt PInf _ = False"
| "flt NInf NInf = False"
| "flt NInf _ = True"
| "flt (Finite x) PInf = True"
| "flt (Finite x) NInf = False"

definition fle :: "float64 \<Rightarrow> float64 \<Rightarrow> bool" where
  "fle a b = (a \<noteq> NaN \<and> b \<noteq> NaN \<and> (flt a b \<or> a = b))"

text \<open>
  Python's builtin \<^verbatim>\<open>max(a, b)\<close> keeps \<open>a\<close> unless \<^verbatim>\<open>b > a\<close>; a NaN first argument is
  therefore returned.
\<close>

definition py_max :: "float64 \<Rightarrow> float64 \<Rightarrow> float64" where
  "py_max a b = (if flt a b then b else a)"

datatype py_error = OverflowError | ZeroDivisionError

text \<open>IEEE division, and Python's float division, which raises on a zero divisor.\<close>

fun fdiv :: "float64 \<Rightarrow> float64 \<Rightarrow> float64" where
  "fdiv NaN _ = NaN"
| "fdiv _ NaN = NaN"
| "fdiv (Finite x) (Finite y) =
     (if y = 0 then (if x = 0 then NaN else if 0 < x then PInf else NInf) else fl (x / y))"
| "fdiv (Finite x) _ = Finite 0"
| "fdiv PInf (Finite y) = (if 0 \<le> y then PInf else NInf)"
| "fdiv NInf (Finite y) = (if 0 \<le> y then NInf else PInf)"
| "fdiv _ _ = NaN"

definition py_truediv :: "float64 \<Rightarrow> float64 \<Rightarrow> py_error + float64" where
  "py_truediv a b = (if b = Finite 0 then Inl ZeroDivisionError else Inr (fdiv a b))"

text \<open>
  \<^verbatim>\<open>numpy.exp\<close> and \<^verbatim>\<open>numpy.power\<close> on float64 scalars call the C library's \<^verbatim>\<open>exp\<close> and
  \<^verbatim>\<open>pow\<close>; under numpy's default error state an overflow, an underflow, a division by
  zero or an invalid operation is a warning and the IEEE result is returned. The finite
  results are taken correctly rounded, where a C library may be off by one unit in the
  last place: what is proved below of a finite result of \<open>np_exp\<close> or \<open>np_power\<close> is its
  sign, its place against 0 and 1, or an enclosure far wider than that unit. The special
  cases are those of C99 Annex F.
\<close>

fun np_exp :: "float64 \<Rightarrow> float64" where
  "np_exp NaN = NaN"
| "np_exp PInf = PInf"
| "np_exp NInf = Finite 0"
| "np_exp (Finite x) = fl (exp x)"

definition odd_integer :: "real \<Rightarrow> bool" where
  "odd_integer y = (y = of_int \<lfloor>y\<rfloor> \<and> odd \<lfloor>y\<rfloor>)"

fun pow_cases :: "float64 \<Rightarrow> float64 \<Rightarrow> float64" where
  "pow_cases NaN _ = NaN"
| "pow_cases _ NaN = NaN"
| "pow_cases (Finite a) (Finite b) =
     (if a = 0 then (if b < 0 then PInf else Finite 0)
      else if 0 < a then fl (a powr b)
      else if b = of_int \<lfloor>b\<rfloor> then (if odd \<lfloor>b\<rfloor> then fl (- (\<bar>a\<bar> powr b)) else fl (\<bar>a\<bar> powr b))
      else NaN)"
| "pow_cases (Finite a) PInf =
     (if \<bar>a\<bar> < 1 then Finite 0 else if \<bar>a\<bar> = 1 then Finite 1 else PInf)"
| "pow_cases (Finite a) NInf =
     (if \<bar>a\<bar> < 1 then PInf else if \<bar>a\<bar> = 1 then Finite 1 else Finite 0)"
| "pow_cases PInf (Finite b) = (if b < 0 then Finite 0 else PInf)"
| "pow_cases PInf PInf = PInf"
| "pow_cases PInf NInf = Finite 0"
| "pow_cases NInf (Finite b) =
     (if b < 0 then Finite 0 else if odd_integer b then NInf else PInf)"
| "pow_cases NInf PInf = PInf"
| "pow_cases NInf NInf = Finite 0"

definition np_power :: "float64 \<Rightarrow> float64 \<Rightarrow> float64" where
  "np_power x y =
     (if y = Finite 0 then Finite 1
      else if x = Finite 1 then Finite 1
      else pow_cases x y)"

section \<open>Formatting with \<^verbatim>\<open>.2f\<close>\<close>

text \<open>
  Python converts the exact value of the double to decimal, correctly rounded with ties
  to even, and prints the sign of a negative value also when the digits are all zero.
\<close>

definition digit :: "nat \<Rightarrow> char" where
  "digit d = char_of (48 + d)"

fun show_nat :: "nat \<Rightarrow> string" where
  "show_nat n = (if n < 10 then [digit n] else show_nat (n div 10) @ [digit (n mod 10)])"

declare show_nat.simps [simp del]

definition format_2f :: "float64 \<Rightarrow> string" where
  "format_2f v =
     (case v of
        NaN \<Rightarrow> ''nan''
      | PInf \<Rightarrow> ''inf''
      | NInf \<Rightarrow> ''-inf''
      | Finite x \<Rightarrow>
          (let n = nat (round_half_even (\<bar>x\<bar> * 100))
           in (if x < 0 then ''-'' else []) @ show_nat (n div 100) @ ''.''
              @ [digit (n mod 100 div 10), digit (n mod 10)]))"

section \<open>The probability function of \<^verbatim>\<open>src/app.py\<close>\<close>

text \<open>Lines 5 to 9: the module constants.\<close>

definition Q_INDEX :: float64 where "Q_INDEX = lit (18591 / 10000)"
definition KAPPA :: float64 where "KAPPA = lit (2121 / 10000)"
definition A_MET :: float64 where "A_MET = lit (10789 / 10000)"
definition ALPHA_MASS :: float64 where "ALPHA_MASS = lit (9825 / 10000)"
definition BETA_MASS :: float64 where "BETA_MASS = lit (22413 / 10000)"

text \<open>
  Lines 16 and 17: \<^verbatim>\<open>float(x)\<close>. The form passes the slider values, Python ints or
  floats; an int is rounded to the nearest double and one beyond the range of the
  doubles raises.
\<close>

datatype pyval = PyFloat float64 | PyInt int

fun py_float :: "pyval \<Rightarrow> py_error + float64" where
  "py_float (PyFloat v) = Inr v"
| "py_float (PyInt n) =
     (case fl (of_int n) of Finite y \<Rightarrow> Inr (Finite y) | _ \<Rightarrow> Inl OverflowError)"

text \<open>Line 21.\<close>

definition Z_term :: "float64 \<Rightarrow> float64" where
  "Z_term Z = np_power (Finite 10) (fmul A_MET Z)"

text \<open>Line 22.\<close>

definition M_term :: "float64 \<Rightarrow> float64" where
  "M_term M = fmul (np_power (py_max M (lit (1 / 100000))) ALPHA_MASS)
                   (np_exp (fmul (fneg BETA_MASS) M))"

text \<open>Line 23.\<close>

definition Phi :: "float64 \<Rightarrow> float64 \<Rightarrow> float64" where
  "Phi M Z = fmul (fmul KAPPA (Z_term Z)) (M_term M)"

text \<open>Line 26: the base before the test of line 28.\<close>

definition base0 :: "float64 \<Rightarrow> float64 \<Rightarrow> float64" where
  "base0 M Z = fsub (Finite 1) (fmul (fsub (Finite 1) Q_INDEX) (Phi M Z))"

text \<open>Lines 28 and 29: whether the branch is taken, and the base after it.\<close>

definition clamp_fires :: "float64 \<Rightarrow> float64 \<Rightarrow> bool" where
  "clamp_fires M Z = fle (base0 M Z) (Finite 0)"

definition base :: "float64 \<Rightarrow> float64 \<Rightarrow> float64" where
  "base M Z = (if clamp_fires M Z then Finite 0 else base0 M Z)"

text \<open>Line 31.\<close>

definition eq_minus_Phi :: "float64 \<Rightarrow> float64 \<Rightarrow> py_error + float64" where
  "eq_minus_Phi M Z =
     (case py_truediv (Finite 1) (fsub (Finite 1) Q_INDEX) of
        Inl e \<Rightarrow> Inl e
      | Inr c \<Rightarrow> Inr (np_power (base M Z) c))"

text \<open>Lines 34 and 37.\<close>

definition P_final :: "float64 \<Rightarrow> float64 \<Rightarrow> py_error + float64" where
  "P_final M Z =
     (case eq_minus_Phi M Z of Inl e \<Rightarrow> Inl e | Inr q \<Rightarrow> Inr (fsub (Finite 1) q))"

definition P_percent :: "float64 \<Rightarrow> float64 \<Rightarrow> py_error + float64" where
  "P_percent M Z =
     (case P_final M Z of Inl e \<Rightarrow> Inl e | Inr p \<Rightarrow> Inr (fmul p (Finite 100)))"

text \<open>Lines 11 to 40.\<close>

definition calculate_exoplanet_probability :: "pyval \<Rightarrow> pyval \<Rightarrow> py_error + string" where
  "calculate_exoplanet_probability stellar_mass metallicity =
     (case py_float stellar_mass of
        Inl e \<Rightarrow> Inl e
      | Inr M \<Rightarrow>
          (case py_float metallicity of
             Inl e \<Rightarrow> Inl e
           | Inr Z \<Rightarrow>
               (case P_percent M Z of
                  Inl e \<Rightarrow> Inl e
                | Inr pp \<Rightarrow> Inr (format_2f pp @ ''%''))))"

section \<open>A call, with the module's globals as state\<close>

text \<open>
  The names \<^verbatim>\<open>Q_INDEX\<close>, \<^verbatim>\<open>KAPPA\<close>, \<^verbatim>\<open>A_MET\<close>, \<^verbatim>\<open>ALPHA_MASS\<close> and \<^verbatim>\<open>BETA_MASS\<close> are module
  globals, looked up at each call. A call takes the globals as they are, runs lines 16 to
  40 on them and leaves them as the body leaves them: the body assigns its locals only.
\<close>

record module_globals =
  g_Q_INDEX :: float64
  g_KAPPA :: float64
  g_A_MET :: float64
  g_ALPHA_MASS :: float64
  g_BETA_MASS :: float64

text \<open>Lines 5 to 9: the globals once the module is loaded.\<close>

definition module_loaded :: module_globals where
  "module_loaded =
     \<lparr>g_Q_INDEX = lit (18591 / 10000), g_KAPPA = lit (2121 / 10000),
      g_A_MET = lit (10789 / 10000), g_ALPHA_MASS = lit (9825 / 10000),
      g_BETA_MASS = lit (22413 / 10000)\<rparr>"

text \<open>Lines 11 to 40, with the locals of the body primed.\<close>

definition call_calculate_exoplanet_probability ::
    "module_globals \<Rightarrow> pyval \<Rightarrow> pyval \<Rightarrow> (py_error + string) \<times> module_globals" where
  "call_calculate_exoplanet_probability g stellar_mass metallicity =
     (case py_float stellar_mass of
        Inl e \<Rightarrow> (Inl e, g)
      | Inr M' \<Rightarrow>
          (case py_float metallicity of
             Inl e \<Rightarrow> (Inl e, g)
           | Inr Z' \<Rightarrow>
               (let Z_term' = np_power (Finite 10) (fmul (g_A_MET g) Z');
                    M_term' = fmul (np_power (py_max M' (lit (1 / 100000))) (g_ALPHA_MASS g))
                                   (np_exp (fmul (fneg (g_BETA_MASS g)) M'));
                    Phi' = fmul (fmul (g_KAPPA g) Z_term') M_term';
                    base' = fsub (Finite 1) (fmul (fsub (Finite 1) (g_Q_INDEX g)) Phi');
                    base'' = (if fle base' (Finite 0) then Finite 0 else base')
                in case py_truediv (Finite 1) (fsub (Finite 1) (g_Q_INDEX g)) of
                     Inl e \<Rightarrow> (Inl e, g)
                   | Inr c \<Rightarrow>
                       (let eq_minus_Phi' = np_power base'' c;
                            P' = fsub (Finite 1) eq_minus_Phi';
                            P_percent' = fmul P' (Finite 100)
                        in (Inr (format_2f P_percent' @ ''%''), g)))))"

section \<open>The reference algorithm of the specification\<close>

text \<open>
  The nine steps of the specification, written from its words over the same doubles:
  \<open>max\<close> is the larger of two values, \<open>-betaMass * M\<close> is the negated product, and the
  quotient \<open>1 / (1 - qIndex)\<close> is the IEEE division \<open>fdiv\<close>, which raises nothing.
\<close>

definition qIndex :: float64 where "qIndex = lit (18591 / 10000)"
definition kappa :: float64 where "kappa = lit (2121 / 10000)"
definition aMet :: float64 where "aMet = lit (10789 / 10000)"
definition alphaMass :: float64 where "alphaMass = lit (9825 / 10000)"
definition betaMass :: float64 where "betaMass = lit (22413 / 10000)"

definition ref_max :: "float64 \<Rightarrow> float64 \<Rightarrow> float64" where
  "ref_max a b = (if fle a b then b else a)"

definition reference_algorithm :: "float64 \<Rightarrow> float64 \<Rightarrow> string" where
  "reference_algorithm M Z =
     (let mEff = ref_max M (lit (1 / 100000));
          zTerm = np_power (Finite 10) (fmul aMet Z);
          mTerm = fmul (np_power mEff alphaMass) (np_exp (fneg (fmul betaMass M)));
          phi = fmul (fmul kappa zTerm) mTerm;
          base1 = fsub (Finite 1) (fmul (fsub (Finite 1) qIndex) phi);
          base2 = (if fle base1 (Finite 0) then Finite 0 else base1);
          eqMinusPhi = np_power base2 (fdiv (Finite 1) (fsub (Finite 1) qIndex));
          P = fsub (Finite 1) eqMinusPhi
      in format_2f (fmul P (Finite 100)) @ ''%'')"

section \<open>Shapes of the output\<close>

text \<open>
  The pattern of the specification (an optional minus sign, one or more digits, a point,
  exactly two digits, a percent sign), and the number such a string encodes.
\<close>

definition is_digit :: "char \<Rightarrow> bool" where
  "is_digit c = (48 \<le> (of_char c :: nat) \<and> (of_char c :: nat) \<le> 57)"

definition strip_minus :: "string \<Rightarrow> string" where
  "strip_minus s = (case s of c # r \<Rightarrow> if c = CHR ''-'' then r else s | [] \<Rightarrow> s)"

definition matches_percent :: "string \<Rightarrow> bool" where
  "matches_percent s =
     (let t = strip_minus s; ip = takeWhile is_digit t
      in ip \<noteq> [] \<and>
         (case dropWhile is_digit t of
            [dot, d1, d2, pct] \<Rightarrow> dot = CHR ''.'' \<and> is_digit d1 \<and> is_digit d2 \<and> pct = CHR ''%''
          | _ \<Rightarrow> False))"

definition digits_value :: "string \<Rightarrow> nat" where
  "digits_value ds = foldl (\<lambda>a c. 10 * a + ((of_char c :: nat) - 48)) 0 ds"

definition percent_value :: "string \<Rightarrow> real" where
  "percent_value s =
     (let t = strip_minus s;
          v = real (digits_value (takeWhile is_digit t))
              + real (digits_value (take 2 (drop 1 (dropWhile is_digit t)))) / 100
      in if t = s then v else - v)"

definition is_finite :: "float64 \<Rightarrow> bool" where
  "is_finite v = (case v of Finite _ \<Rightarrow> True | _ \<Rightarrow> False)"

text \<open>A value that is not negative: NaN, or a double (or \<open>+inf\<close>) that is at least zero.\<close>

definition nonneg_or_nan :: "float64 \<Rightarrow> bool" where
  "nonneg_or_nan v = (v = NaN \<or> fle (Finite 0) v)"

text \<open>The digits that \<open>format_2f\<close> prints for a number of hundredths.\<close>

definition hundredths :: "nat \<Rightarrow> string" where
  "hundredths n = show_nat (n div 100) @ ''.'' @ [digit (n mod 100 div 10), digit (n mod 10)]"

section \<open>Rounding to the nearest double\<close>

lemma round_half_even_bounds: "x - 1 / 2 \<le> of_int (round_half_even x) \<and> of_int (round_half_even x) \<le> x + 1 / 2"
  unfolding round_half_even_def Let_def by (auto; linarith)

lemma round_half_even_of_int [simp]: "round_half_even (of_int k) = k"
  unfolding round_half_even_def Let_def by simp

lemma round_half_even_mono: "x \<le> y \<Longrightarrow> round_half_even x \<le> round_half_even y"
proof -
  assume xy: "x \<le> y"
  have fl: "\<lfloor>x\<rfloor> \<le> \<lfloor>y\<rfloor>" using xy by (rule floor_mono)
  show ?thesis
  proof (cases "\<lfloor>x\<rfloor> = \<lfloor>y\<rfloor>")
    case True
    then show ?thesis using xy unfolding round_half_even_def Let_def by auto
  next
    case False
    then have "\<lfloor>x\<rfloor> + 1 \<le> \<lfloor>y\<rfloor>" using fl by simp
    moreover have "round_half_even x \<le> \<lfloor>x\<rfloor> + 1" unfolding round_half_even_def Let_def by auto
    moreover have "\<lfloor>y\<rfloor> \<le> round_half_even y" unfolding round_half_even_def Let_def by auto
    ultimately show ?thesis by linarith
  qed
qed

lemma round_half_even_minus: "round_half_even (- x) = - round_half_even x"
proof (cases "x = of_int \<lfloor>x\<rfloor>")
  case True
  then obtain k where "x = of_int k" ..
  then have "- x = of_int (- k)" by simp
  then show ?thesis using \<open>x = of_int k\<close> by (metis round_half_even_of_int)
next
  case False
  then have f: "\<lfloor>- x\<rfloor> = - \<lfloor>x\<rfloor> - 1"
    by (metis Ints_of_int ceiling_altdef ceiling_def add_diff_cancel_right' floor_minus minus_diff_eq
        of_int_floor_cancel diff_minus_eq_add minus_add_distrib uminus_add_conv_diff) 
  show ?thesis unfolding round_half_even_def Let_def f by (auto)
qed


lemma round_half_even_numeral [simp]: "round_half_even (numeral n) = numeral n"
  using round_half_even_of_int[of "numeral n"] by simp

lemma ulp_pos: "0 < ulp x" unfolding ulp_def by simp

lemma rnd_minus: "rnd (- x) = - rnd x"
  unfolding rnd_def ulp_def binade_def by (simp add: round_half_even_minus)

lemma rnd_nonneg: "0 \<le> x \<Longrightarrow> 0 \<le> rnd x"
proof -
  assume "0 \<le> x"
  then have "0 \<le> x / ulp x" using ulp_pos[of x] by simp
  then have "round_half_even 0 \<le> round_half_even (x / ulp x)" by (rule round_half_even_mono)
  then have "0 \<le> round_half_even (x / ulp x)" using round_half_even_of_int[of 0] by simp
  then show ?thesis unfolding rnd_def using ulp_pos[of x] by simp
qed

lemma binade_mono: "0 < x \<Longrightarrow> x \<le> y \<Longrightarrow> binade x \<le> binade y"
proof -
  assume "0 < x" "x \<le> y"
  then have "log 2 x \<le> log 2 y" by simp
  then have "\<lfloor>log 2 x\<rfloor> \<le> \<lfloor>log 2 y\<rfloor>" by (rule floor_mono)
  then show ?thesis unfolding binade_def using \<open>0 < x\<close> \<open>x \<le> y\<close> by simp
qed

lemma binade_upper: "0 < x \<Longrightarrow> x < 2 powr real_of_int (binade x + 1)"
proof -
  assume x: "0 < x"
  have "log 2 x < of_int (\<lfloor>log 2 x\<rfloor> + 1)" by linarith
  also have "\<dots> \<le> of_int (binade x + 1)" unfolding binade_def using x by simp
  finally have "log 2 x < of_int (binade x + 1)" .
  then show ?thesis using x by (simp add: log_less_iff)
qed

lemma binade_lower: "0 < x \<Longrightarrow> - 1022 < binade x \<Longrightarrow> 2 powr real_of_int (binade x) \<le> x"
proof -
  assume x: "0 < x" and b: "- 1022 < binade x"
  then have "binade x = \<lfloor>log 2 x\<rfloor>" unfolding binade_def by simp
  then have "of_int (binade x) \<le> log 2 x" by simp
  then show ?thesis using x by (simp add: le_log_iff)
qed

lemma rnd_upper: assumes "0 < x" shows "rnd x \<le> 2 powr real_of_int (binade x + 1)"
proof -
  have "x / ulp x \<le> 2 powr real_of_int (binade x + 1) / ulp x"
    using binade_upper[OF assms] ulp_pos[of x] by (simp add: divide_right_mono)
  also have "\<dots> = 2 powr 53" unfolding ulp_def by (simp flip: powr_diff)
  also have "\<dots> = of_int (2 ^ 53)" by simp
  finally have "round_half_even (x / ulp x) \<le> round_half_even (of_int (2 ^ 53))"
    by (rule round_half_even_mono)
  then have "of_int (round_half_even (x / ulp x)) \<le> (2::real) powr 53"
    by simp
  then have "rnd x \<le> 2 powr 53 * ulp x" using assms ulp_pos[of x] unfolding rnd_def by simp
  also have "\<dots> = 2 powr real_of_int (binade x + 1)" unfolding ulp_def by (simp add: powr_diff powr_add)
  finally show ?thesis .
qed

lemma rnd_lower: assumes "0 < x" "- 1022 < binade x" shows "2 powr real_of_int (binade x) \<le> rnd x"
proof -
  have "2 powr real_of_int (binade x) / ulp x \<le> x / ulp x"
    using binade_lower[OF assms] ulp_pos[of x] by (simp add: divide_right_mono)
  moreover have "2 powr real_of_int (binade x) / ulp x = 2 powr 52" unfolding ulp_def by (simp flip: powr_diff)
  moreover have "(2::real) powr 52 = of_int (2 ^ 52)" by simp
  ultimately have "round_half_even (of_int (2 ^ 52)) \<le> round_half_even (x / ulp x)"
    by (metis round_half_even_mono)
  then have "(2::real) powr 52 \<le> of_int (round_half_even (x / ulp x))"
    by simp
  then have "2 powr 52 * ulp x \<le> rnd x" using assms ulp_pos[of x] unfolding rnd_def by simp
  moreover have "2 powr 52 * ulp x = 2 powr real_of_int (binade x)" unfolding ulp_def by (simp add: powr_diff powr_add)
  ultimately show ?thesis by simp
qed

lemma rnd_mono_pos: assumes "0 < x" "x \<le> y" shows "rnd x \<le> rnd y"
proof (cases "binade x = binade y")
  case True
  then have u: "ulp x = ulp y" unfolding ulp_def by simp
  have "x / ulp y \<le> y / ulp y" using assms ulp_pos[of y] by (simp add: divide_right_mono)
  then have "round_half_even (x / ulp y) \<le> round_half_even (y / ulp y)" by (rule round_half_even_mono)
  then show ?thesis using assms ulp_pos[of y] unfolding rnd_def u by simp
next
  case False
  then have lt: "binade x < binade y" using binade_mono[OF assms] by simp
  have y: "0 < y" using assms by simp
  have "- 1022 \<le> binade x" unfolding binade_def by simp
  then have "- 1022 < binade y" using lt by simp
  then have "2 powr real_of_int (binade y) \<le> rnd y" using rnd_lower[OF y] by simp
  moreover have "rnd x \<le> 2 powr real_of_int (binade x + 1)" by (rule rnd_upper[OF assms(1)])
  moreover have "(2::real) powr real_of_int (binade x + 1) \<le> 2 powr real_of_int (binade y)"
    using lt by simp
  ultimately show ?thesis by linarith
qed

lemma rnd_mono: assumes "x \<le> y" shows "rnd x \<le> rnd y"
proof -
  consider "0 < x" | "x \<le> 0" "0 \<le> y" | "y < 0" by linarith
  then show ?thesis
  proof cases
    case 1 then show ?thesis using assms by (rule rnd_mono_pos)
  next
    case 2
    have "rnd x \<le> 0" using rnd_nonneg[of "- x"] 2 by (simp add: rnd_minus)
    moreover have "0 \<le> rnd y" using 2 by (simp add: rnd_nonneg)
    ultimately show ?thesis by simp
  next
    case 3
    then have "0 < - y" "- y \<le> - x" using assms by simp_all
    then have "rnd (- y) \<le> rnd (- x)" by (rule rnd_mono_pos)
    then show ?thesis by (simp add: rnd_minus)
  qed
qed


lemma rnd_dyadic_pos:
  assumes k: "0 < k" "k < 2 ^ 53" and e: "- 1074 \<le> e"
  shows "rnd (of_int k * 2 powr real_of_int e) = of_int k * 2 powr real_of_int e"
proof -
  define x where "x = of_int k * 2 powr real_of_int e"
  have xpos: "0 < x" unfolding x_def using k by simp
  have "of_int k < (2::real) ^ 53" using k(2) by (metis of_int_less_numeral_power_cancel_iff)
  then have "x < 2 ^ 53 * 2 powr real_of_int e" unfolding x_def by simp
  also have "\<dots> = 2 powr real_of_int (e + 53)" by (simp add: powr_add)
  finally have "log 2 x < of_int (e + 53)" using xpos by (simp add: log_less_iff)
  then have "\<lfloor>log 2 x\<rfloor> < e + 53" by (simp add: floor_less_iff)
  then have b: "binade x \<le> e + 52" unfolding binade_def using xpos e by simp
  define d where "d = nat (e + 52 - binade x)"
  have d: "real_of_int e = real_of_int (binade x - 52) + real d" unfolding d_def using b by simp
  have "2 powr real_of_int e = 2 powr real_of_int (binade x - 52) * 2 powr real d"
    by (simp only: d powr_add)
  also have "\<dots> = ulp x * 2 ^ d" unfolding ulp_def by (simp only: powr_realpow zero_less_numeral)
  finally have "x = of_int k * 2 ^ d * ulp x" unfolding x_def by (simp add: mult.commute)
  then have "x / ulp x = of_int k * 2 ^ d * ulp x / ulp x" by simp
  then have "x / ulp x = of_int k * 2 ^ d" using ulp_pos[of x] by simp
  also have "\<dots> = of_int (k * 2 ^ d)" by simp
  finally have "round_half_even (x / ulp x) = k * 2 ^ d" by (simp only: round_half_even_of_int)
  then have "rnd x = of_int (k * 2 ^ d) * ulp x" unfolding rnd_def using xpos by simp
  also have "\<dots> = x / ulp x * ulp x" using \<open>x / ulp x = of_int k * 2 ^ d\<close> by simp
  also have "\<dots> = x" using ulp_pos[of x] by simp
  finally show ?thesis unfolding x_def .
qed

lemma rnd_dyadic:
  assumes k: "\<bar>k\<bar> < 2 ^ 53" and e: "- 1074 \<le> e"
  shows "rnd (of_int k * 2 powr real_of_int e) = of_int k * 2 powr real_of_int e"
proof -
  consider "0 < k" | "k = 0" | "k < 0" by linarith
  then show ?thesis
  proof cases
    case 1 then show ?thesis using rnd_dyadic_pos[of k e] k e by simp
  next
    case 2 then show ?thesis by (simp add: rnd_def)
  next
    case 3
    then have "rnd (of_int (- k) * 2 powr real_of_int e) = of_int (- k) * 2 powr real_of_int e"
      using rnd_dyadic_pos[of "- k" e] k e by simp
    then show ?thesis using rnd_minus[of "of_int k * 2 powr real_of_int e"] by simp
  qed
qed

lemma rnd_of_int: "\<bar>k\<bar> < 2 ^ 53 \<Longrightarrow> rnd (of_int k) = of_int k"
  using rnd_dyadic[of k 0] by simp

lemma rnd_pow2: "rnd (2 ^ n) = 2 ^ n"
  using rnd_dyadic[of 1 "int n"] by (simp add: powr_realpow)

lemma rnd_int_div_pow2: "\<bar>k\<bar> < 2 ^ 53 \<Longrightarrow> n \<le> 1074 \<Longrightarrow> rnd (of_int k / 2 ^ n) = of_int k / 2 ^ n"
  using rnd_dyadic[of k "- int n"] by (simp add: powr_minus_divide powr_realpow)

lemma rnd_int_mult_pow2: "\<bar>k\<bar> < 2 ^ 53 \<Longrightarrow> rnd (of_int k * 2 ^ n) = of_int k * 2 ^ n"
  using rnd_dyadic[of k "int n"] by (simp add: powr_realpow)

lemma rnd_le: "x \<le> c \<Longrightarrow> rnd c = c \<Longrightarrow> rnd x \<le> c"
  using rnd_mono[of x c] by simp

lemma rnd_ge: "c \<le> x \<Longrightarrow> rnd c = c \<Longrightarrow> c \<le> rnd x"
  using rnd_mono[of c x] by simp

lemma rnd_0 [simp]: "rnd 0 = 0" by (simp add: rnd_def)
lemma rnd_1 [simp]: "rnd 1 = 1" using rnd_of_int[of 1] by simp
lemma rnd_numeral_small: "numeral n < (2::int) ^ 53 \<Longrightarrow> rnd (numeral n) = numeral n"
  using rnd_of_int[of "numeral n"] by simp

lemma rnd_underflow:
  assumes "\<bar>x\<bar> < 1 / 2 ^ 1075" shows "rnd x = 0"
proof -
  have pos: "rnd y = 0" if y: "0 < y" "y < 1 / 2 ^ 1075" for y
  proof -
    have "y < 2 powr real_of_int (- 1075)" using y(2) by (simp add: powr_minus_divide)
    then have "log 2 y < of_int (- 1075)" using y(1) by (simp only: log_less_iff)
    then have "\<lfloor>log 2 y\<rfloor> < - 1075" by (simp only: floor_less_iff)
    then have b: "binade y = - 1022" unfolding binade_def using y(1) by simp
    have u: "ulp y = 1 / 2 ^ 1074" unfolding ulp_def b by (simp add: powr_minus_divide)
    have "y / ulp y = y * 2 ^ 1074" unfolding u by simp
    also have "\<dots> < 1 / 2 ^ 1075 * 2 ^ 1074" using y(2) by (simp only: mult_strict_right_mono zero_less_power zero_less_numeral)
    also have "\<dots> = 1 / 2" by simp
    finally have lt: "y / ulp y < 1 / 2" .
    have ge: "0 \<le> y / ulp y" using y(1) ulp_pos[of y] by simp
    have "\<lfloor>y / ulp y\<rfloor> = 0" unfolding floor_eq_iff using lt ge by linarith
    then have "round_half_even (y / ulp y) = 0" unfolding round_half_even_def Let_def using lt by simp
    then show ?thesis unfolding rnd_def by simp
  qed
  consider "0 < x" | "x = 0" | "x < 0" by linarith
  then show ?thesis
  proof cases
    case 1 then show ?thesis using pos[of x] assms by simp
  next
    case 2 then show ?thesis by simp
  next
    case 3 then have "rnd (- x) = 0" using pos[of "- x"] assms by simp
    then show ?thesis by (simp add: rnd_minus)
  qed
qed

section \<open>Results of operations and the module constants\<close>

lemma fl_minus: "fl (- x) = fneg (fl x)"
  unfolding fl_def Let_def rnd_minus by auto

lemma fl_Finite: "- (2 ^ 1024) < rnd x \<Longrightarrow> rnd x < 2 ^ 1024 \<Longrightarrow> fl x = Finite (rnd x)"
  unfolding fl_def Let_def by simp

lemma fl_Finite_bounded:
  "lo \<le> rnd x \<and> rnd x \<le> hi \<Longrightarrow> - (2 ^ 1024) < lo \<Longrightarrow> hi < 2 ^ 1024 \<Longrightarrow> fl x = Finite (rnd x)"
  by (intro fl_Finite) linarith+

lemma rnd_between:
  assumes "lo \<le> x" "x \<le> hi" "rnd lo = lo" "rnd hi = hi"
  shows "lo \<le> rnd x \<and> rnd x \<le> hi"
  using rnd_ge[OF assms(1,3)] rnd_le[OF assms(2,4)] by simp

lemma fl_between:
  assumes "lo \<le> x" "x \<le> hi" "rnd lo = lo" "rnd hi = hi" "- (2 ^ 1024) < lo" "hi < 2 ^ 1024"
  shows "fl x = Finite (rnd x)"
  using rnd_between[OF assms(1-4)] assms(5,6) by (intro fl_Finite) linarith+

lemma rnd_half [simp]: "rnd (1 / 2) = 1 / 2" using rnd_int_div_pow2[of 1 1] by simp
lemma rnd_2 [simp]: "rnd 2 = 2" by (simp add: rnd_numeral_small)
lemma rnd_3_2 [simp]: "rnd (3 / 2) = 3 / 2" using rnd_int_div_pow2[of 3 1] by simp
lemma rnd_m1 [simp]: "rnd (- 1) = - 1" using rnd_minus[of 1] by simp
lemma rnd_mhalf [simp]: "rnd (- (1 / 2)) = - (1 / 2)" using rnd_minus[of "1/2"] by simp
lemma rnd_m2 [simp]: "rnd (- 2) = - 2" using rnd_minus[of 2] by simp

text \<open>The double of \<open>Q_INDEX\<close> lies in \<open>[3/2, 2]\<close>.\<close>

lemma Q_bounds: "3 / 2 \<le> rnd (18591 / 10000) \<and> rnd (18591 / 10000) \<le> 2"
  by (rule rnd_between) simp_all

lemma one_minus_Q_bounds:
  "- 1 \<le> rnd (1 - rnd (18591 / 10000)) \<and> rnd (1 - rnd (18591 / 10000)) \<le> - (1 / 2)"
  using Q_bounds by (intro rnd_between) simp_all

lemma one_minus_Q: "fsub (Finite 1) Q_INDEX = Finite (rnd (1 - rnd (18591 / 10000)))"
  unfolding Q_INDEX_def lit_def fsub.simps by (rule fl_Finite_bounded[OF one_minus_Q_bounds]) simp_all

lemma exponent_bounds:
  "- 2 \<le> rnd (1 / rnd (1 - rnd (18591 / 10000))) \<and> rnd (1 / rnd (1 - rnd (18591 / 10000))) \<le> - 1"
proof -
  define q where "q = rnd (1 - rnd (18591 / 10000))"
  have q: "- 1 \<le> q" "q \<le> - (1 / 2)" using one_minus_Q_bounds unfolding q_def by simp_all
  have "- 2 \<le> 1 / q" using q by (simp add: field_simps)
  moreover have "1 / q \<le> - 1" using q by (simp add: field_simps)
  ultimately show ?thesis unfolding q_def[symmetric] by (intro rnd_between) simp_all
qed

lemma exponent_value:
  "py_truediv (Finite 1) (fsub (Finite 1) Q_INDEX) = Inr (Finite (rnd (1 / rnd (1 - rnd (18591 / 10000)))))"
proof -
  have "rnd (1 - rnd (18591 / 10000)) \<noteq> 0" using one_minus_Q_bounds by linarith
  moreover have "fl (1 / rnd (1 - rnd (18591 / 10000))) = Finite (rnd (1 / rnd (1 - rnd (18591 / 10000))))"
    by (rule fl_Finite_bounded[OF exponent_bounds]) simp_all
  ultimately show ?thesis unfolding one_minus_Q py_truediv_def by simp
qed

section \<open>The function and the reference algorithm\<close>

lemma fmul_fneg: "fmul (fneg a) b = fneg (fmul a b)"
  by (cases a; cases b) (auto simp: fl_minus[symmetric])

lemma ref_max_py_max: "ref_max a b = py_max a b"
  unfolding ref_max_def py_max_def fle_def by (cases a; cases b) auto

lemma exponent_fdiv:
  "fdiv (Finite 1) (fsub (Finite 1) qIndex) = Finite (rnd (1 / rnd (1 - rnd (18591 / 10000))))"
proof -
  have "rnd (1 - rnd (18591 / 10000)) \<noteq> 0" using one_minus_Q_bounds by linarith
  moreover have "fl (1 / rnd (1 - rnd (18591 / 10000))) = Finite (rnd (1 / rnd (1 - rnd (18591 / 10000))))"
    by (rule fl_Finite_bounded[OF exponent_bounds]) simp_all
  moreover have "fsub (Finite 1) qIndex = Finite (rnd (1 - rnd (18591 / 10000)))"
    using one_minus_Q unfolding qIndex_def Q_INDEX_def .
  ultimately show ?thesis by simp
qed

lemma P_percent_reference:
  "(case P_percent M Z of Inl e \<Rightarrow> Inl e | Inr pp \<Rightarrow> Inr (format_2f pp @ ''%'')) = Inr (reference_algorithm M Z)"
proof -
  have c: "KAPPA = kappa" "A_MET = aMet" "ALPHA_MASS = alphaMass" "BETA_MASS = betaMass" "Q_INDEX = qIndex"
    unfolding KAPPA_def kappa_def A_MET_def aMet_def ALPHA_MASS_def alphaMass_def
      BETA_MASS_def betaMass_def Q_INDEX_def qIndex_def by simp_all
  show ?thesis
    unfolding P_percent_def P_final_def eq_minus_Phi_def exponent_value
    unfolding reference_algorithm_def Let_def exponent_fdiv ref_max_py_max
    unfolding base_def clamp_fires_def base0_def Phi_def M_term_def Z_term_def fmul_fneg c
    by simp
qed

text \<open>
  Claim C1. For every pair of inputs that \<^verbatim>\<open>float()\<close> converts to doubles \<open>M\<close> and \<open>Z\<close>,
  \<open>calculate_exoplanet_probability\<close> returns the string of the nine-step reference
  algorithm of the specification with the five constants 1.8591, 0.2121, 1.0789, 0.9825
  and 2.2413.
\<close>

theorem calculate_refines_reference:
  assumes "py_float stellar_mass = Inr M" and "py_float metallicity = Inr Z"
  shows "calculate_exoplanet_probability stellar_mass metallicity = Inr (reference_algorithm M Z)"
  unfolding calculate_exoplanet_probability_def assms using P_percent_reference[of M Z] by simp

theorem calculate_refines_reference_witness:
  "py_float (PyFloat (Finite 1)) = Inr (Finite 1) \<and> py_float (PyInt 0) = Inr (Finite 0) \<and>
   calculate_exoplanet_probability (PyFloat (Finite 1)) (PyInt 0)
     = Inr (reference_algorithm (Finite 1) (Finite 0))"
proof -
  have a: "py_float (PyFloat (Finite 1)) = Inr (Finite 1)" by simp
  have b: "py_float (PyInt 0) = Inr (Finite 0)" by (simp add: fl_def)
  show ?thesis using a b calculate_refines_reference[OF a b] by simp
qed

lemma clamp_literal_pos: "1 / 2 ^ 17 \<le> rnd (1 / 100000) \<and> rnd (1 / 100000) \<le> 1 / 2 ^ 16"
proof (rule rnd_between)
  show "rnd (1 / 2 ^ 17) = 1 / 2 ^ 17" using rnd_int_div_pow2[of 1 17] by simp
  show "rnd (1 / 2 ^ 16) = 1 / 2 ^ 16" using rnd_int_div_pow2[of 1 16] by simp
qed simp_all

section \<open>Signs of the intermediate values\<close>

lemma fle_zero_iff: "fle (Finite 0) v \<longleftrightarrow> v = PInf \<or> (\<exists>x. v = Finite x \<and> 0 \<le> x)"
  unfolding fle_def by (cases v) auto

lemma fle_one_iff: "fle (Finite 1) v \<longleftrightarrow> v = PInf \<or> (\<exists>x. v = Finite x \<and> 1 \<le> x)"
  unfolding fle_def by (cases v) auto

lemma fle_Finite [simp]: "fle (Finite x) (Finite y) \<longleftrightarrow> x \<le> y"
  unfolding fle_def by auto

lemma fl_cases: "fl x = PInf \<or> fl x = NInf \<or> fl x = Finite (rnd x)"
  unfolding fl_def Let_def by simp

lemma fl_nonneg: "0 \<le> x \<Longrightarrow> fle (Finite 0) (fl x)"
  using rnd_nonneg[of x] unfolding fl_def Let_def fle_zero_iff by auto

lemma fl_nonpos: "x \<le> 0 \<Longrightarrow> fl x = NInf \<or> (\<exists>y. fl x = Finite y \<and> y \<le> 0)"
  using rnd_le[of x 0] unfolding fl_def Let_def by simp

lemma fl_ge_one: "1 \<le> x \<Longrightarrow> fle (Finite 1) (fl x)"
  using rnd_ge[of 1 x] unfolding fl_def Let_def fle_one_iff by auto

lemma fl_unit: "0 \<le> x \<Longrightarrow> x \<le> 1 \<Longrightarrow> fl x = Finite (rnd x) \<and> 0 \<le> rnd x \<and> rnd x \<le> 1"
  using rnd_ge[of 0 x] rnd_le[of x 1] unfolding fl_def Let_def by simp

lemma fl_upto_100: "0 \<le> x \<Longrightarrow> x \<le> 100 \<Longrightarrow> fl x = Finite (rnd x) \<and> 0 \<le> rnd x \<and> rnd x \<le> 100"
  using rnd_ge[of 0 x] rnd_le[of x 100] unfolding fl_def Let_def by (simp add: rnd_numeral_small)


lemma nn_cases: "nonneg_or_nan v \<longleftrightarrow> v = NaN \<or> v = PInf \<or> (\<exists>x. v = Finite x \<and> 0 \<le> x)"
  unfolding nonneg_or_nan_def fle_zero_iff by auto

lemma nn_fl: "0 \<le> x \<Longrightarrow> nonneg_or_nan (fl x)"
  unfolding nonneg_or_nan_def using fl_nonneg by simp

lemma nn_fmul: "nonneg_or_nan a \<Longrightarrow> nonneg_or_nan b \<Longrightarrow> nonneg_or_nan (fmul a b)"
proof -
  assume a: "nonneg_or_nan a" and b: "nonneg_or_nan b"
  show ?thesis
  proof (cases a)
    case (Finite x)
    then have x: "0 \<le> x" using a by (simp add: nn_cases)
    show ?thesis
    proof (cases b)
      case (Finite y)
      then have "0 \<le> y" using b by (simp add: nn_cases)
      then show ?thesis using x Finite \<open>a = Finite x\<close> by (simp add: nn_fl)
    qed (use Finite x b in \<open>auto simp: nn_cases\<close>)
  next
    case PInf
    then show ?thesis using b by (cases b) (auto simp: nn_cases)
  qed (use a in \<open>auto simp: nn_cases\<close>)
qed

lemma nn_np_exp: "nonneg_or_nan (np_exp x)"
proof (cases x)
  case (Finite a)
  have "nonneg_or_nan (fl (exp a))" by (rule nn_fl) simp
  then show ?thesis using Finite by simp
qed (simp_all add: nn_cases)

lemma nn_pow_cases: "nonneg_or_nan x \<Longrightarrow> nonneg_or_nan (pow_cases x y)"
proof -
  assume x: "nonneg_or_nan x"
  have p: "nonneg_or_nan (fl (a powr b))" for a b :: real by (rule nn_fl) simp
  show ?thesis
  proof (cases x)
    case (Finite a)
    then have "0 \<le> a" using x by (simp add: nn_cases)
    then show ?thesis using Finite p by (cases y) (auto simp: nn_cases)
  next
    case PInf
    then show ?thesis by (cases y) (auto simp: nn_cases)
  qed (use x in \<open>auto simp: nn_cases\<close>)
qed

lemma nn_np_power: "nonneg_or_nan x \<Longrightarrow> nonneg_or_nan (np_power x y)"
  unfolding np_power_def using nn_pow_cases[of x y] by (auto simp: nn_cases)

lemma nn_lit: "0 \<le> r \<Longrightarrow> nonneg_or_nan (lit r)"
  unfolding lit_def nn_cases using rnd_nonneg by simp

lemma nn_py_max: "nonneg_or_nan b \<Longrightarrow> b \<noteq> NaN \<Longrightarrow> nonneg_or_nan (py_max a b)"
  unfolding py_max_def by (cases a; cases b) (auto simp: nn_cases)

lemma nn_Z_term: "nonneg_or_nan (Z_term Z)"
  unfolding Z_term_def by (rule nn_np_power) (simp add: nn_cases)

lemma nn_M_term: "nonneg_or_nan (M_term M)"
  unfolding M_term_def
  by (intro nn_fmul nn_np_power nn_py_max nn_np_exp nn_lit) (simp_all add: lit_def)

lemma nn_Phi: "nonneg_or_nan (Phi M Z)"
  unfolding Phi_def KAPPA_def by (intro nn_fmul nn_lit nn_Z_term nn_M_term) simp

lemma base0_cases:
  "base0 M Z = NaN \<and> Phi M Z = NaN \<or> Phi M Z \<noteq> NaN \<and> fle (Finite 1) (base0 M Z)"
proof -
  define q where "q = rnd (1 - rnd (18591 / 10000))"
  have q: "q < 0" using one_minus_Q_bounds unfolding q_def by linarith
  have b: "base0 M Z = fsub (Finite 1) (fmul (Finite q) (Phi M Z))"
    unfolding base0_def one_minus_Q q_def ..
  consider "Phi M Z = NaN" | "Phi M Z = PInf" | p where "Phi M Z = Finite p" "0 \<le> p"
    using nn_Phi[of M Z] unfolding nn_cases by blast
  then show ?thesis
  proof cases
    case 1 then show ?thesis using b by simp
  next
    case 2 then show ?thesis using b q by (simp add: fle_one_iff)
  next
    case 3
    have "q * p \<le> 0" using q 3(2) by (simp add: mult_le_0_iff)
    then consider "fl (q * p) = NInf" | y where "fl (q * p) = Finite y" "y \<le> 0"
      using fl_nonpos by blast
    then have "fle (Finite 1) (fsub (Finite 1) (fl (q * p)))"
    proof cases
      case 1 then show ?thesis by (simp add: fle_one_iff)
    next
      case 2
      have "fle (Finite 1) (fl (1 - y))" using 2(2) by (intro fl_ge_one) simp
      then show ?thesis using 2(1) by simp
    qed
    then show ?thesis using b 3(1) by simp
  qed
qed

lemma clamp_never_fires: "\<not> clamp_fires M Z"
proof -
  have "\<not> fle v (Finite 0)" if "v = NaN \<or> fle (Finite 1) v" for v
    using that unfolding fle_def by (cases v) auto
  then show ?thesis unfolding clamp_fires_def using base0_cases[of M Z] by blast
qed

lemma base_is_base0: "base M Z = base0 M Z"
  unfolding base_def using clamp_never_fires by simp

lemma eq_minus_Phi_cases:
  "eq_minus_Phi M Z = Inr NaN \<and> Phi M Z = NaN
   \<or> Phi M Z \<noteq> NaN \<and> (\<exists>y. eq_minus_Phi M Z = Inr (Finite y) \<and> 0 \<le> y \<and> y \<le> 1)"
proof -
  define c where "c = rnd (1 / rnd (1 - rnd (18591 / 10000)))"
  have c: "c < 0" using exponent_bounds unfolding c_def by linarith
  have e: "eq_minus_Phi M Z = Inr (np_power (base0 M Z) (Finite c))"
    unfolding eq_minus_Phi_def exponent_value base_is_base0 c_def by simp
  consider "base0 M Z = NaN" "Phi M Z = NaN" | "Phi M Z \<noteq> NaN" "base0 M Z = PInf"
    | b where "Phi M Z \<noteq> NaN" "base0 M Z = Finite b" "1 \<le> b"
    using base0_cases[of M Z] unfolding fle_one_iff by blast
  then show ?thesis
  proof cases
    case 1 then show ?thesis using e c by (simp add: np_power_def)
  next
    case 2 then show ?thesis using e c by (simp add: np_power_def)
  next
    case 3
    have "b powr c \<le> b powr 0" using 3(3) c by (intro powr_mono) simp_all
    then have "b powr c \<le> 1" using 3(3) by simp
    then have "fl (b powr c) = Finite (rnd (b powr c)) \<and> 0 \<le> rnd (b powr c) \<and> rnd (b powr c) \<le> 1"
      by (intro fl_unit) simp_all
    then have "\<exists>y. np_power (Finite b) (Finite c) = Finite y \<and> 0 \<le> y \<and> y \<le> 1"
      using 3(3) c unfolding np_power_def by auto
    then show ?thesis using e 3(1,2) by simp
  qed
qed

lemma P_final_cases:
  "P_final M Z = Inr NaN \<and> Phi M Z = NaN
   \<or> Phi M Z \<noteq> NaN \<and> (\<exists>p. P_final M Z = Inr (Finite p) \<and> 0 \<le> p \<and> p \<le> 1)"
proof -
  consider "eq_minus_Phi M Z = Inr NaN" "Phi M Z = NaN"
    | y where "Phi M Z \<noteq> NaN" "eq_minus_Phi M Z = Inr (Finite y)" "0 \<le> y" "y \<le> 1"
    using eq_minus_Phi_cases[of M Z] by blast
  then show ?thesis
  proof cases
    case 1 then show ?thesis unfolding P_final_def by simp
  next
    case 2
    have "fl (1 - y) = Finite (rnd (1 - y)) \<and> 0 \<le> rnd (1 - y) \<and> rnd (1 - y) \<le> 1"
      using 2(3,4) by (intro fl_unit) simp_all
    then show ?thesis unfolding P_final_def using 2(1,2) by simp
  qed
qed

lemma P_percent_cases:
  "P_percent M Z = Inr NaN \<and> Phi M Z = NaN
   \<or> Phi M Z \<noteq> NaN \<and> (\<exists>p. P_percent M Z = Inr (Finite p) \<and> 0 \<le> p \<and> p \<le> 100)"
proof -
  consider "P_final M Z = Inr NaN" "Phi M Z = NaN"
    | p where "Phi M Z \<noteq> NaN" "P_final M Z = Inr (Finite p)" "0 \<le> p" "p \<le> 1"
    using P_final_cases[of M Z] by blast
  then show ?thesis
  proof cases
    case 1 then show ?thesis unfolding P_percent_def by simp
  next
    case 2
    have "fl (p * 100) = Finite (rnd (p * 100)) \<and> 0 \<le> rnd (p * 100) \<and> rnd (p * 100) \<le> 100"
      using 2(3,4) by (intro fl_upto_100) simp_all
    then show ?thesis unfolding P_percent_def using 2(1,2) by simp
  qed
qed

section \<open>The formatted string\<close>

lemma of_char_digit: "d < 10 \<Longrightarrow> (of_char (digit d) :: nat) = 48 + d"
  unfolding digit_def by simp

lemma is_digit_digit: "d < 10 \<Longrightarrow> is_digit (digit d)"
  unfolding is_digit_def by (simp add: of_char_digit)

lemma digit_not_minus: "d < 10 \<Longrightarrow> digit d \<noteq> CHR ''-''"
proof
  assume "d < 10" "digit d = CHR ''-''"
  then have "(of_char (digit d) :: nat) = of_char (CHR ''-'')" by simp
  then show False using \<open>d < 10\<close> by (simp add: of_char_digit)
qed

lemma not_is_digit_point: "\<not> is_digit (CHR ''.'')"
  unfolding is_digit_def by simp

lemma show_nat_digits: "c \<in> set (show_nat n) \<Longrightarrow> is_digit c"
proof (induction n arbitrary: c rule: show_nat.induct)
  case (1 n)
  show ?case
  proof (cases "n < 10")
    case True
    then show ?thesis using 1(2) by (simp add: show_nat.simps[of n] is_digit_digit)
  next
    case False
    then have "c \<in> set (show_nat (n div 10)) \<or> c = digit (n mod 10)"
      using 1(2) by (auto simp add: show_nat.simps[of n])
    then show ?thesis using 1(1)[OF False] by (auto simp: is_digit_digit)
  qed
qed

lemma show_nat_nonempty: "show_nat n \<noteq> []"
  by (simp add: show_nat.simps[of n])

lemma hd_show_nat_not_minus: "hd (show_nat n) \<noteq> CHR ''-''"
proof -
  have "hd (show_nat n) \<in> set (show_nat n)" using show_nat_nonempty by simp
  then have "is_digit (hd (show_nat n))" by (rule show_nat_digits)
  then show ?thesis unfolding is_digit_def by auto
qed

lemma digits_value_snoc: "digits_value (ds @ [c]) = 10 * digits_value ds + ((of_char c :: nat) - 48)"
  unfolding digits_value_def by simp

lemma digits_value_show_nat: "digits_value (show_nat n) = n"
proof (induction n rule: show_nat.induct)
  case (1 n)
  show ?case
  proof (cases "n < 10")
    case True
    then show ?thesis by (simp add: show_nat.simps[of n] digits_value_def of_char_digit)
  next
    case False
    then show ?thesis using 1[OF False]
      by (simp add: show_nat.simps[of n] digits_value_snoc of_char_digit)
  qed
qed

lemma digits_value_two: "a < 10 \<Longrightarrow> b < 10 \<Longrightarrow> digits_value [digit a, digit b] = 10 * a + b"
  unfolding digits_value_def by (simp add: of_char_digit)


lemma strip_minus_hundredths: "strip_minus (hundredths n @ r) = hundredths n @ r"
proof -
  obtain c cs where s: "show_nat (n div 100) = c # cs" using show_nat_nonempty by (cases "show_nat (n div 100)") auto
  then have "c \<noteq> CHR ''-''" using hd_show_nat_not_minus[of "n div 100"] by simp
  then show ?thesis unfolding hundredths_def strip_minus_def s by simp
qed

lemma strip_minus_minus: "strip_minus (CHR ''-'' # s) = s"
  unfolding strip_minus_def by simp

lemma takeWhile_hundredths: "takeWhile is_digit (hundredths n @ r) = show_nat (n div 100)"
  unfolding hundredths_def using show_nat_digits[of _ "n div 100"]
  by (simp add: takeWhile_append2 not_is_digit_point)

lemma dropWhile_hundredths:
  "dropWhile is_digit (hundredths n @ r) = CHR ''.'' # digit (n mod 100 div 10) # digit (n mod 10) # r"
  unfolding hundredths_def using show_nat_digits[of _ "n div 100"]
  by (simp add: dropWhile_append2 not_is_digit_point)

lemma matches_percent_hundredths: "matches_percent (hundredths n @ ''%'')"
  unfolding matches_percent_def Let_def strip_minus_hundredths takeWhile_hundredths dropWhile_hundredths
  by (simp add: show_nat_nonempty is_digit_digit)

lemma matches_percent_minus_hundredths: "matches_percent (CHR ''-'' # hundredths n @ ''%'')"
  unfolding matches_percent_def Let_def strip_minus_minus takeWhile_hundredths dropWhile_hundredths
  by (simp add: show_nat_nonempty is_digit_digit)

lemma two_digits_value: "10 * (n mod 100 div 10) + n mod 10 = n mod (100::nat)"
proof -
  have "n mod 100 mod 10 = n mod 10" by (rule mod_mod_cancel) simp
  moreover have "n mod 100 div 10 * 10 + n mod 100 mod 10 = n mod 100" by (rule div_mult_mod_eq)
  ultimately show ?thesis by simp
qed

lemma split_hundred: "real (n div 100) + real (n mod 100) / 100 = real n / 100"
proof -
  have "real (n div 100 * 100 + n mod 100) = real n" by (simp only: div_mult_mod_eq)
  then have "real (n div 100) * 100 + real (n mod 100) = real n"
    by (simp only: of_nat_add of_nat_mult of_nat_numeral)
  then have "real n / 100 = (real (n div 100) * 100 + real (n mod 100)) / 100" by simp
  also have "\<dots> = real (n div 100) + real (n mod 100) / 100" by (simp add: add_divide_distrib)
  finally show ?thesis by simp
qed

lemma percent_value_hundredths: "percent_value (hundredths n @ ''%'') = real n / 100"
proof -
  have a: "n mod 100 div 10 < 10" by simp
  have b: "n mod 10 < 10" by simp
  have "digits_value [digit (n mod 100 div 10), digit (n mod 10)] = n mod 100"
    unfolding digits_value_two[OF a b] by (rule two_digits_value)
  then have "percent_value (hundredths n @ ''%'') = real (n div 100) + real (n mod 100) / 100"
    unfolding percent_value_def Let_def strip_minus_hundredths takeWhile_hundredths dropWhile_hundredths
    by (simp add: digits_value_show_nat)
  then show ?thesis by (simp only: split_hundred)
qed

lemma format_2f_nonneg:
  "0 \<le> x \<Longrightarrow> format_2f (Finite x) = hundredths (nat (round_half_even (x * 100)))"
  unfolding format_2f_def hundredths_def Let_def by simp

lemma format_2f_neg:
  "x < 0 \<Longrightarrow> format_2f (Finite x) = CHR ''-'' # hundredths (nat (round_half_even (- x * 100)))"
  unfolding format_2f_def hundredths_def Let_def by simp

lemma matches_percent_format: "matches_percent (format_2f (Finite x) @ ''%'')"
proof (cases "0 \<le> x")
  case True
  show ?thesis unfolding format_2f_nonneg[OF True] by (rule matches_percent_hundredths)
next
  case False
  then have neg: "x < 0" by simp
  have "format_2f (Finite x) @ ''%'' = CHR ''-'' # hundredths (nat (round_half_even (- x * 100))) @ ''%''"
    unfolding format_2f_neg[OF neg] by simp
  then show ?thesis using matches_percent_minus_hundredths by metis
qed

lemma round_hundredths_range:
  assumes "0 \<le> x" "x \<le> 100"
  shows "0 \<le> round_half_even (x * 100) \<and> round_half_even (x * 100) \<le> 10000"
proof -
  have "round_half_even 0 \<le> round_half_even (x * 100)" using assms by (intro round_half_even_mono) simp
  moreover have "round_half_even (x * 100) \<le> round_half_even 10000"
    using assms by (intro round_half_even_mono) simp
  moreover have "round_half_even 0 = 0" using round_half_even_of_int[of 0] by simp
  ultimately show ?thesis by simp
qed

lemma percent_value_format:
  assumes "0 \<le> x" "x \<le> 100"
  shows "0 \<le> percent_value (format_2f (Finite x) @ ''%'') \<and> percent_value (format_2f (Finite x) @ ''%'') \<le> 100"
proof -
  define n where "n = nat (round_half_even (x * 100))"
  have "n \<le> 10000" unfolding n_def using round_hundredths_range[OF assms] by linarith
  then have "real n / 100 \<le> 100" by simp
  then show ?thesis
    unfolding format_2f_nonneg[OF assms(1)] n_def[symmetric] percent_value_hundredths by simp
qed

section \<open>Doubles are fixed by rounding\<close>

lemma rnd_idem: "rnd (rnd x) = rnd x"
proof -
  have pos: "rnd (rnd y) = rnd y" if y: "0 < y" for y
  proof -
    define k where "k = round_half_even (y / ulp y)"
    define e where "e = binade y - 52"
    have r: "rnd y = of_int k * 2 powr real_of_int e"
      unfolding rnd_def k_def e_def ulp_def using y by simp
    have e: "- 1074 \<le> e" unfolding e_def binade_def by simp
    have "y / ulp y < 2 powr real_of_int (binade y + 1) / ulp y"
      using binade_upper[OF y] ulp_pos[of y] by (simp add: divide_strict_right_mono)
    also have "\<dots> = of_int (2 ^ 53)" unfolding ulp_def by (simp add: powr_diff powr_add)
    finally have "k \<le> round_half_even (of_int (2 ^ 53))"
      unfolding k_def by (intro round_half_even_mono) simp
    then have k53: "k \<le> 2 ^ 53" by simp
    have "round_half_even 0 \<le> k" unfolding k_def using y ulp_pos[of y] by (intro round_half_even_mono) simp
    then have k0: "0 \<le> k" using round_half_even_of_int[of 0] by simp
    show ?thesis
    proof (cases "k = 2 ^ 53")
      case True
      have "rnd y = of_int 1 * 2 powr real_of_int (e + 53)" unfolding r True by (simp add: powr_add)
      moreover have "rnd (of_int 1 * 2 powr real_of_int (e + 53)) = of_int 1 * 2 powr real_of_int (e + 53)"
        using e by (intro rnd_dyadic) simp_all
      ultimately show ?thesis by simp
    next
      case False
      then have "\<bar>k\<bar> < 2 ^ 53" using k53 k0 by simp
      then show ?thesis unfolding r using e by (intro rnd_dyadic)
    qed
  qed
  consider "0 < x" | "x = 0" | "x < 0" by linarith
  then show ?thesis
  proof cases
    case 1 then show ?thesis by (rule pos)
  next
    case 2 then show ?thesis by simp
  next
    case 3
    then have "rnd (rnd (- x)) = rnd (- x)" by (intro pos) simp
    then show ?thesis by (simp add: rnd_minus)
  qed
qed

lemma fl_representable: "fl x = Finite a \<Longrightarrow> rnd a = a \<and> \<bar>a\<bar> < 2 ^ 1024"
  unfolding fl_def Let_def by (auto simp: rnd_idem split: if_splits)

section \<open>Moderate inputs\<close>

lemma rnd_3 [simp]: "rnd 3 = 3" by (simp add: rnd_numeral_small)
lemma rnd_quarter [simp]: "rnd (1 / 4) = 1 / 4" using rnd_int_div_pow2[of 1 2] by simp
lemma rnd_eighth [simp]: "rnd (1 / 8) = 1 / 8" using rnd_int_div_pow2[of 1 3] by simp

lemma A_bounds: "1 \<le> rnd (10789 / 10000) \<and> rnd (10789 / 10000) \<le> 2"
  by (rule rnd_between) simp_all

lemma alpha_bounds: "1 / 2 \<le> rnd (9825 / 10000) \<and> rnd (9825 / 10000) \<le> 1"
  by (rule rnd_between) simp_all

lemma beta_bounds: "2 \<le> rnd (22413 / 10000) \<and> rnd (22413 / 10000) \<le> 3"
  by (rule rnd_between) simp_all

lemma kappa_bounds: "1 / 8 \<le> rnd (2121 / 10000) \<and> rnd (2121 / 10000) \<le> 1 / 4"
  by (rule rnd_between) simp_all

lemma pow_cases_representable: "pow_cases x y = Finite a \<Longrightarrow> rnd a = a \<and> \<bar>a\<bar> < 2 ^ 1024"
  by (cases x; cases y) (auto split: if_splits dest: fl_representable)

lemma np_power_representable: "np_power x y = Finite a \<Longrightarrow> rnd a = a \<and> \<bar>a\<bar> < 2 ^ 1024"
  unfolding np_power_def by (auto split: if_splits dest: pow_cases_representable)

lemma Phi_not_NaN:
  assumes "is_finite (Z_term Z)" "is_finite (M_term M)"
  shows "Phi M Z \<noteq> NaN"
proof -
  obtain a where a: "Z_term Z = Finite a" using assms(1) unfolding is_finite_def by (cases "Z_term Z") auto
  obtain b where b: "M_term M = Finite b" using assms(2) unfolding is_finite_def by (cases "M_term M") auto
  have a0: "0 \<le> a" using nn_Z_term[of Z] a by (simp add: nn_cases)
  have ar: "rnd a = a" "\<bar>a\<bar> < 2 ^ 1024"
    using np_power_representable[of "Finite 10" "fmul A_MET Z" a] a unfolding Z_term_def by simp_all
  define k where "k = rnd (2121 / 10000)"
  have k: "0 \<le> k" "k \<le> 1" using kappa_bounds unfolding k_def by linarith+
  have "0 \<le> k * a" using k a0 by simp
  moreover have "k * a \<le> a" using k a0 by (simp add: mult_left_le_one_le)
  ultimately have "0 \<le> rnd (k * a) \<and> rnd (k * a) \<le> a" using ar(1) by (intro rnd_between) simp_all
  then have "fl (k * a) = Finite (rnd (k * a))" using ar(2) by (intro fl_Finite) linarith+
  then have "Phi M Z = fl (rnd (k * a) * b)" unfolding Phi_def a b KAPPA_def lit_def k_def by simp
  then show ?thesis using fl_cases[of "rnd (k * a) * b"] by auto
qed

text \<open>Masses in \<open>[1/16, 4]\<close>: the mass term is a finite double in \<open>[0, 4]\<close>.\<close>

lemma M_term_moderate:
  assumes "1 / 16 \<le> m" "m \<le> 4"
  shows "\<exists>t. M_term (Finite m) = Finite t \<and> 0 \<le> t \<and> t \<le> 4"
proof -
  define al where "al = rnd (9825 / 10000)"
  define be where "be = rnd (22413 / 10000)"
  have al: "1 / 2 \<le> al" "al \<le> 1" using alpha_bounds unfolding al_def by simp_all
  have be: "2 \<le> be" "be \<le> 3" using beta_bounds unfolding be_def by simp_all
  have "rnd (1 / 100000) \<le> 1 / 2 ^ 16" using clamp_literal_pos by simp
  then have "\<not> m < rnd (1 / 100000)" using assms(1) by simp
  then have mx: "py_max (Finite m) (lit (1 / 100000)) = Finite m" unfolding py_max_def lit_def by simp
  have pw: "\<exists>p. np_power (Finite m) (Finite al) = Finite p \<and> 0 \<le> p \<and> p \<le> 4"
  proof (cases "m = 1")
    case True then show ?thesis unfolding np_power_def by simp
  next
    case False
    have "m powr al \<le> 4"
    proof (cases "m \<le> 1")
      case True
      then have "m powr al \<le> 1" using assms(1) al by (intro powr_le1) simp_all
      then show ?thesis by simp
    next
      case False
      then have "m powr al \<le> m powr 1" using al by (intro powr_mono) simp_all
      then show ?thesis using assms by simp
    qed
    then have "0 \<le> rnd (m powr al) \<and> rnd (m powr al) \<le> 4"
      by (intro rnd_between) (simp_all add: rnd_numeral_small)
    moreover from this have "fl (m powr al) = Finite (rnd (m powr al))"
      by (rule fl_Finite_bounded) simp_all
    ultimately show ?thesis using False al assms(1) unfolding np_power_def by simp
  qed
  then obtain p where p: "np_power (Finite m) (Finite al) = Finite p" "0 \<le> p" "p \<le> 4" by blast
  have "be * m \<le> 3 * 4" using be assms by (intro mult_mono) simp_all
  then have "- 12 \<le> - be * m" by simp
  moreover have "- be * m \<le> 0" using be assms by simp
  ultimately have t: "- 12 \<le> rnd (- be * m) \<and> rnd (- be * m) \<le> 0"
    using rnd_minus[of 12] by (intro rnd_between) (simp_all add: rnd_numeral_small)
  then have ft: "fl (- be * m) = Finite (rnd (- be * m))" by (rule fl_Finite_bounded) simp_all
  have ex: "fl (exp (rnd (- be * m))) = Finite (rnd (exp (rnd (- be * m))))
      \<and> 0 \<le> rnd (exp (rnd (- be * m))) \<and> rnd (exp (rnd (- be * m))) \<le> 1"
    using t by (intro fl_unit) simp_all
  define e where "e = rnd (exp (rnd (- be * m)))"
  have e: "0 \<le> e" "e \<le> 1" and fe: "fl (exp (rnd (- be * m))) = Finite e" using ex unfolding e_def by simp_all
  have "p * e \<le> 4 * 1" using p(2,3) e by (intro mult_mono) simp_all
  then have "p * e \<le> 4" by simp
  then have "0 \<le> rnd (p * e) \<and> rnd (p * e) \<le> 4"
    using p e by (intro rnd_between) (simp_all add: rnd_numeral_small)
  moreover from this have "fl (p * e) = Finite (rnd (p * e))" by (rule fl_Finite_bounded) simp_all
  ultimately show ?thesis
    unfolding M_term_def mx unfolding ALPHA_MASS_def BETA_MASS_def lit_def al_def[symmetric] be_def[symmetric]
    using p(1) ft fe by simp
qed

text \<open>Metallicities in \<open>[-2, 8]\<close>: the metallicity term is a finite double.\<close>

lemma Z_term_moderate:
  assumes "- 2 \<le> z" "z \<le> 8"
  shows "\<exists>t. Z_term (Finite z) = Finite t"
proof -
  define a where "a = rnd (10789 / 10000)"
  have a: "1 \<le> a" "a \<le> 2" using A_bounds unfolding a_def by simp_all
  have "- 4 \<le> a * z"
  proof (cases "0 \<le> z")
    case True then show ?thesis using a by (simp add: order_trans[of "- 4" 0])
  next
    case False
    then have "a * z \<ge> 2 * z" using a by (simp add: mult_right_mono_neg)
    then show ?thesis using assms by simp
  qed
  moreover have "a * z \<le> 16"
  proof (cases "0 \<le> z")
    case True
    then have "a * z \<le> 2 * 8" using a assms by (intro mult_mono) simp_all
    then show ?thesis by simp
  next
    case False
    then have "a * z \<le> 0" using a by (simp add: mult_le_0_iff)
    then show ?thesis by simp
  qed
  ultimately have y: "- 4 \<le> rnd (a * z) \<and> rnd (a * z) \<le> 16"
    using rnd_minus[of 4] by (intro rnd_between) (simp_all add: rnd_numeral_small)
  then have fy: "fl (a * z) = Finite (rnd (a * z))" by (rule fl_Finite_bounded) simp_all
  define y where "y = rnd (a * z)"
  have "10 powr y \<le> 10 powr 16" using y unfolding y_def by (intro powr_mono) simp_all
  then have hi: "10 powr y \<le> 2 ^ 64" by simp
  have "0 \<le> rnd (10 powr y) \<and> rnd (10 powr y) \<le> 2 ^ 64"
    by (rule rnd_between[OF _ hi rnd_0 rnd_pow2]) simp
  then have "fl (10 powr y) = Finite (rnd (10 powr y))" by (rule fl_Finite_bounded) simp_all
  then show ?thesis
    unfolding Z_term_def A_MET_def lit_def a_def[symmetric] using fy
    unfolding y_def[symmetric] np_power_def by simp
qed

lemma Phi_moderate:
  assumes "1 / 16 \<le> m" "m \<le> 4" "- 2 \<le> z" "z \<le> 8"
  shows "Phi (Finite m) (Finite z) \<noteq> NaN"
proof (rule Phi_not_NaN)
  show "is_finite (Z_term (Finite z))" using Z_term_moderate[OF assms(3,4)] unfolding is_finite_def by auto
  show "is_finite (M_term (Finite m))" using M_term_moderate[OF assms(1,2)] unfolding is_finite_def by auto
qed

section \<open>Totality and the shape of the result\<close>

lemma result_of_percent:
  "calculate_exoplanet_probability (PyFloat M) (PyFloat Z)
     = (case P_percent M Z of Inl e \<Rightarrow> Inl e | Inr pp \<Rightarrow> Inr (format_2f pp @ ''%''))"
  unfolding calculate_exoplanet_probability_def by simp

lemma result_NaN:
  assumes "Phi M Z = NaN"
  shows "calculate_exoplanet_probability (PyFloat M) (PyFloat Z) = Inr ''nan%''"
proof -
  have "P_percent M Z = Inr NaN" using P_percent_cases[of M Z] assms by blast
  then show ?thesis unfolding result_of_percent by (simp add: format_2f_def)
qed

lemma result_percentage:
  assumes "Phi M Z \<noteq> NaN"
  shows "\<exists>s. calculate_exoplanet_probability (PyFloat M) (PyFloat Z) = Inr s
            \<and> matches_percent s \<and> 0 \<le> percent_value s \<and> percent_value s \<le> 100"
proof -
  obtain p where p: "P_percent M Z = Inr (Finite p)" "0 \<le> p" "p \<le> 100"
    using P_percent_cases[of M Z] assms by blast
  have "calculate_exoplanet_probability (PyFloat M) (PyFloat Z) = Inr (format_2f (Finite p) @ ''%'')"
    unfolding result_of_percent p(1) by simp
  then show ?thesis using matches_percent_format[of p] percent_value_format[OF p(2,3)] by simp
qed

lemma P_percent_returns: "\<exists>pp. P_percent M Z = Inr pp"
  using P_percent_cases[of M Z] by blast

lemma calculate_returns:
  assumes "py_float stellar_mass = Inr M" "py_float metallicity = Inr Z"
  shows "\<exists>s. calculate_exoplanet_probability stellar_mass metallicity = Inr s"
proof -
  obtain pp where "P_percent M Z = Inr pp" using P_percent_returns by blast
  then show ?thesis unfolding calculate_exoplanet_probability_def assms by simp
qed

lemma tenth_bounds: "1 / 16 \<le> rnd (1 / 10) \<and> rnd (1 / 10) \<le> 1 / 8"
proof (rule rnd_between)
  show "rnd (1 / 16) = 1 / 16" using rnd_int_div_pow2[of 1 4] by simp
qed simp_all

text \<open>
  Claim C6. For every \<open>M\<close> in \<open>[0.1, 2.5]\<close> and every \<open>Z\<close> in \<open>[-1.0, 0.5]\<close> the function
  returns a string that matches the pattern of an optional minus sign, digits, a point,
  two digits and a percent sign, and the number it encodes lies in \<open>[0, 100]\<close>.
\<close>

theorem ui_domain_percentage:
  assumes "1 / 10 \<le> m" "m \<le> 5 / 2" "- 1 \<le> z" "z \<le> 1 / 2"
  shows "\<exists>s. calculate_exoplanet_probability (PyFloat (Finite m)) (PyFloat (Finite z)) = Inr s
            \<and> matches_percent s \<and> 0 \<le> percent_value s \<and> percent_value s \<le> 100"
proof (rule result_percentage)
  show "Phi (Finite m) (Finite z) \<noteq> NaN" using assms by (intro Phi_moderate) simp_all
qed

theorem ui_domain_percentage_witness:
  "(1 / 10 :: real) \<le> 1 \<and> (1 :: real) \<le> 5 / 2 \<and> (- 1 :: real) \<le> 0 \<and> (0 :: real) \<le> 1 / 2 \<and>
   (\<exists>s. calculate_exoplanet_probability (PyFloat (Finite 1)) (PyFloat (Finite 0)) = Inr s
            \<and> matches_percent s \<and> 0 \<le> percent_value s \<and> percent_value s \<le> 100)"
  using ui_domain_percentage[of 1 0] by simp

text \<open>
  Claim C3. The function is total on numeric inputs: whenever the two conversions of
  lines 16 and 17 succeed, as they do for every float, it returns a string and raises
  nothing. At \<open>(0.1, -1.0)\<close> the clamp \<open>max(0.1, 1e-5)\<close> is \<open>0.1\<close> and the result is a
  well-formed percentage string.
\<close>

theorem calculate_total:
  "(\<exists>s. calculate_exoplanet_probability (PyFloat M) (PyFloat Z) = Inr s)
   \<and> (py_float stellar_mass = Inr M' \<and> py_float metallicity = Inr Z' \<longrightarrow>
        (\<exists>s. calculate_exoplanet_probability stellar_mass metallicity = Inr s))
   \<and> py_max (lit (1 / 10)) (lit (1 / 100000)) = lit (1 / 10)
   \<and> (\<exists>s. calculate_exoplanet_probability (PyFloat (lit (1 / 10))) (PyFloat (Finite (- 1))) = Inr s
            \<and> matches_percent s)"
proof -
  have a: "\<exists>s. calculate_exoplanet_probability (PyFloat M) (PyFloat Z) = Inr s"
    by (rule calculate_returns) simp_all
  have "rnd (1 / 100000) \<le> 1 / 2 ^ 16" using clamp_literal_pos by simp
  then have "\<not> rnd (1 / 10) < rnd (1 / 100000)" using tenth_bounds by simp
  then have c: "py_max (lit (1 / 10)) (lit (1 / 100000)) = lit (1 / 10)"
    unfolding py_max_def lit_def by simp
  have "Phi (Finite (rnd (1 / 10))) (Finite (- 1)) \<noteq> NaN"
    using tenth_bounds by (intro Phi_moderate) simp_all
  then have d: "\<exists>s. calculate_exoplanet_probability (PyFloat (lit (1 / 10))) (PyFloat (Finite (- 1))) = Inr s
            \<and> matches_percent s"
    unfolding lit_def using result_percentage by blast
  show ?thesis using a c d calculate_returns by blast
qed

theorem calculate_total_witness:
  "py_float (PyInt 1) = Inr (Finite 1) \<and> py_float (PyFloat (Finite 0)) = Inr (Finite 0)
   \<and> (\<exists>s. calculate_exoplanet_probability (PyInt 1) (PyFloat (Finite 0)) = Inr s)"
proof -
  have a: "py_float (PyInt 1) = Inr (Finite 1)" by (simp add: fl_def)
  have b: "py_float (PyFloat (Finite 0)) = Inr (Finite 0)" by simp
  show ?thesis using a b calculate_total[of _ _ "PyInt 1" "Finite 1" "PyFloat (Finite 0)" "Finite 0"] by blast
qed

text \<open>
  Claim C8. For every finite probability \<open>P\<close> in \<open>[0, 1]\<close>, formatting \<open>P * 100\<close> gives a
  non-empty run of digits, a point, exactly two digits and a percent sign: two digits
  after the point, a trailing \<open>%\<close>, and no thousands separator.
\<close>

theorem format_two_decimals:
  assumes "0 \<le> p" "p \<le> 1"
  shows "\<exists>ds d1 d2. format_2f (fmul (Finite p) (Finite 100)) @ ''%'' = ds @ [CHR ''.'', d1, d2, CHR ''%'']
            \<and> ds \<noteq> [] \<and> list_all is_digit ds \<and> is_digit d1 \<and> is_digit d2"
proof -
  have f: "fl (p * 100) = Finite (rnd (p * 100)) \<and> 0 \<le> rnd (p * 100) \<and> rnd (p * 100) \<le> 100"
    using assms by (intro fl_upto_100) simp_all
  define n where "n = nat (round_half_even (rnd (p * 100) * 100))"
  have "format_2f (fmul (Finite p) (Finite 100)) @ ''%'' = hundredths n @ ''%''"
    using f by (simp add: format_2f_nonneg n_def)
  then have "format_2f (fmul (Finite p) (Finite 100)) @ ''%''
      = show_nat (n div 100) @ [CHR ''.'', digit (n mod 100 div 10), digit (n mod 10), CHR ''%'']"
    unfolding hundredths_def by simp
  moreover have "list_all is_digit (show_nat (n div 100))"
    unfolding list_all_iff using show_nat_digits by blast
  moreover have "is_digit (digit (n mod 100 div 10))" "is_digit (digit (n mod 10))"
    by (simp_all add: is_digit_digit)
  ultimately show ?thesis using show_nat_nonempty[of "n div 100"] by blast
qed

theorem format_two_decimals_witness:
  "(0 :: real) \<le> 1 / 2 \<and> (1 / 2 :: real) \<le> 1 \<and>
   (\<exists>ds d1 d2. format_2f (fmul (Finite (1 / 2)) (Finite 100)) @ ''%'' = ds @ [CHR ''.'', d1, d2, CHR ''%'']
            \<and> ds \<noteq> [] \<and> list_all is_digit ds \<and> is_digit d1 \<and> is_digit d2)"
  using format_two_decimals[of "1 / 2"] by simp

section \<open>Extreme inputs\<close>

lemma exp_minus_3_ge: "1 / 32 \<le> exp (- 3 :: real)"
proof -
  have "exp (3 :: real) = exp 1 ^ 3" using exp_of_nat_mult[of 3 "1::real"] by simp
  also have "\<dots> \<le> 3 ^ 3" by (intro power_mono exp_le) simp
  finally have "exp (3 :: real) \<le> 32" by simp
  then have "1 / 32 \<le> 1 / exp (3 :: real)" by (intro divide_left_mono) simp_all
  then show ?thesis by (simp add: exp_minus inverse_eq_divide)
qed

lemma exp_minus_2000_lt: "exp (- 2000 :: real) < 1 / 2 ^ 1075"
proof -
  have "(2 :: real) \<le> exp 1" using exp_ge_add_one_self[of "1::real"] by simp
  then have "(2 :: real) ^ 2000 \<le> exp 1 ^ 2000" by (intro power_mono) simp_all
  also have "\<dots> = exp (2000 :: real)" using exp_of_nat_mult[of 2000 "1::real"] by simp
  finally have "(2 :: real) ^ 1075 < exp 2000" by (rule less_le_trans[rotated]) simp
  then have "1 / exp (2000 :: real) < 1 / 2 ^ 1075" by (intro divide_strict_left_mono) simp_all
  then show ?thesis by (simp add: exp_minus inverse_eq_divide)
qed

lemma rnd_just_below_one: "rnd (1 - 1 / 2 ^ 55) = 1"
proof -
  define x :: real where "x = 1 - 1 / 2 ^ 55"
  have x: "0 < x" "1 / 2 \<le> x" "x < 1" unfolding x_def by simp_all
  have "\<lfloor>log 2 x\<rfloor> = - 1"
    unfolding floor_log_eq_powr_iff[OF x(1), of 2, simplified] using x by (simp add: powr_minus_divide)
  then have b: "binade x = - 1" unfolding binade_def using x(1) by simp
  have u: "ulp x = 1 / 2 ^ 53" unfolding ulp_def b by (simp add: powr_minus_divide)
  have "x / ulp x = x * 2 ^ 53" unfolding u by simp
  also have "\<dots> = of_int (2 ^ 53 - 1) + 3 / 4" unfolding x_def by simp
  finally have q: "x / ulp x = of_int (2 ^ 53 - 1) + 3 / 4" .
  have "\<lfloor>x / ulp x\<rfloor> = 2 ^ 53 - 1" unfolding q by (simp only: floor_add_int floor_eq_iff) simp
  then have "round_half_even (x / ulp x) = 2 ^ 53"
    unfolding round_half_even_def Let_def unfolding q by simp
  then have "rnd x = of_int (2 ^ 53) * (1 / 2 ^ 53)" unfolding rnd_def u using x(1) by simp
  then have "rnd x = 1" by simp
  then show ?thesis unfolding x_def .
qed

lemma rnd_near_one:
  assumes "1 - 1 / 2 ^ 55 \<le> x" "x \<le> 1"
  shows "rnd x = 1"
proof -
  have "rnd (1 - 1 / 2 ^ 55) \<le> rnd x" using assms(1) by (rule rnd_mono)
  moreover have "rnd x \<le> rnd 1" using assms(2) by (rule rnd_mono)
  ultimately show ?thesis unfolding rnd_just_below_one rnd_1 by (rule antisym[rotated])
qed

lemma A_MET_times:
  assumes "0 < z" "rnd z = z" "rnd (2 * z) = 2 * z" "2 * z < 2 ^ 1024"
  shows "\<exists>y. fmul A_MET (Finite z) = Finite y \<and> z \<le> y \<and> y \<le> 2 * z"
proof -
  define a where "a = rnd (10789 / 10000)"
  have a: "1 \<le> a" "a \<le> 2" using A_bounds unfolding a_def by simp_all
  have "z \<le> a * z" using a assms(1) by simp
  moreover have "a * z \<le> 2 * z" using a assms(1) by simp
  ultimately have y: "z \<le> rnd (a * z) \<and> rnd (a * z) \<le> 2 * z"
    using assms(2,3) by (intro rnd_between)
  then have "fl (a * z) = Finite (rnd (a * z))" using assms(1,4) by (intro fl_Finite) linarith+
  then show ?thesis unfolding A_MET_def lit_def a_def[symmetric] using y by simp
qed

lemma Z_term_positive:
  assumes "fmul A_MET (Finite z) = Finite y" "0 < y"
  shows "Z_term (Finite z) = fl (10 powr y)"
  unfolding Z_term_def assms(1) np_power_def using assms(2) by simp

lemma Z_term_20: "\<exists>t. Z_term (Finite 20) = Finite t \<and> 2 ^ 66 \<le> t \<and> t \<le> 2 ^ 133"
proof -
  obtain y where y: "fmul A_MET (Finite 20) = Finite y" "20 \<le> y" "y \<le> 2 * 20"
    using A_MET_times[of 20] by (auto simp: rnd_numeral_small)
  have "(10::real) powr 20 \<le> 10 powr y" using y(2) by (intro powr_mono) simp_all
  then have lo: "(2::real) ^ 66 \<le> 10 powr y" by simp
  have "10 powr y \<le> 10 powr 40" using y(3) by (intro powr_mono) simp_all
  then have hi: "10 powr y \<le> 2 ^ 133" by simp
  have b: "2 ^ 66 \<le> rnd (10 powr y) \<and> rnd (10 powr y) \<le> 2 ^ 133"
    by (rule rnd_between[OF lo hi rnd_pow2 rnd_pow2])
  then have "fl (10 powr y) = Finite (rnd (10 powr y))" by (rule fl_Finite_bounded) simp_all
  then show ?thesis using Z_term_positive[OF y(1)] y(2) b by simp
qed

lemma Z_term_1000: "Z_term (Finite 1000) = PInf"
proof -
  obtain y where y: "fmul A_MET (Finite 1000) = Finite y" "1000 \<le> y" "y \<le> 2 * 1000"
    using A_MET_times[of 1000] by (auto simp: rnd_numeral_small)
  have "(10::real) powr 1000 \<le> 10 powr y" using y(2) by (intro powr_mono) simp_all
  then have lo: "(2::real) ^ 1024 \<le> 10 powr y" by simp
  have "2 ^ 1024 \<le> rnd (10 powr y)" by (rule rnd_ge[OF lo rnd_pow2])
  then have "fl (10 powr y) = PInf" unfolding fl_def Let_def by simp
  then show ?thesis using Z_term_positive[OF y(1)] y(2) by simp
qed

lemma py_max_large:
  assumes "1 / 16 \<le> m"
  shows "py_max (Finite m) (lit (1 / 100000)) = Finite m"
proof -
  have "rnd (1 / 100000) \<le> 1 / 2 ^ 16" using clamp_literal_pos by simp
  then have "\<not> m < rnd (1 / 100000)" using assms by simp
  then show ?thesis unfolding py_max_def lit_def by simp
qed

lemma exp_factor:
  assumes "0 < m" "rnd (2 * m) = 2 * m" "rnd (3 * m) = 3 * m" "3 * m < 2 ^ 1024"
  shows "\<exists>t. fmul (fneg BETA_MASS) (Finite m) = Finite t \<and> - (3 * m) \<le> t \<and> t \<le> - (2 * m)"
proof -
  define be where "be = rnd (22413 / 10000)"
  have be: "2 \<le> be" "be \<le> 3" using beta_bounds unfolding be_def by simp_all
  have "- (3 * m) \<le> - be * m" using be assms(1) by simp
  moreover have "- be * m \<le> - (2 * m)" using be assms(1) by simp
  moreover have "rnd (- (3 * m)) = - (3 * m)" "rnd (- (2 * m)) = - (2 * m)"
    using assms(2,3) by (simp_all add: rnd_minus)
  ultimately have t: "- (3 * m) \<le> rnd (- be * m) \<and> rnd (- be * m) \<le> - (2 * m)"
    by (intro rnd_between)
  then have "fl (- be * m) = Finite (rnd (- be * m))" using assms(1,4) by (intro fl_Finite) linarith+
  then show ?thesis unfolding BETA_MASS_def lit_def be_def[symmetric] using t by simp
qed

lemma M_term_1: "\<exists>e. M_term (Finite 1) = Finite e \<and> 1 / 32 \<le> e \<and> e \<le> 1"
proof -
  obtain t where t: "fmul (fneg BETA_MASS) (Finite 1) = Finite t" "- (3 * 1) \<le> t" "t \<le> - (2 * 1)"
    using exp_factor[of 1] by (auto simp: rnd_numeral_small)
  have "exp (- 3) \<le> exp t" using t(2) by simp
  then have "1 / 32 \<le> exp t" by (rule order_trans[OF exp_minus_3_ge])
  then have lo: "1 / 2 ^ 5 \<le> exp t" by simp
  have hi: "exp t \<le> 1" using t(3) by simp
  have r: "rnd (1 / 2 ^ 5) = 1 / 2 ^ 5" using rnd_int_div_pow2[of 1 5] by simp
  have e: "1 / 2 ^ 5 \<le> rnd (exp t) \<and> rnd (exp t) \<le> 1" by (rule rnd_between[OF lo hi r rnd_1])
  then have fe: "fl (exp t) = Finite (rnd (exp t))" by (rule fl_Finite_bounded) simp_all
  have "1 / 2 ^ 5 \<le> 1 * rnd (exp t)" "1 * rnd (exp t) \<le> 1" using e by simp_all
  then have p: "1 / 2 ^ 5 \<le> rnd (1 * rnd (exp t)) \<and> rnd (1 * rnd (exp t)) \<le> 1"
    using r by (intro rnd_between) simp_all
  then have "fl (1 * rnd (exp t)) = Finite (rnd (1 * rnd (exp t)))" by (rule fl_Finite_bounded) simp_all
  then have "M_term (Finite 1) = Finite (rnd (1 * rnd (exp t)))"
    unfolding M_term_def py_max_large[of 1, simplified] t(1) by (simp add: np_power_def fe)
  then show ?thesis using p by simp
qed

lemma M_term_1000: "M_term (Finite 1000) = Finite 0"
proof -
  obtain t where t: "fmul (fneg BETA_MASS) (Finite 1000) = Finite t" "t \<le> - (2 * 1000)"
    using exp_factor[of 1000] by (auto simp: rnd_numeral_small)
  have "exp t \<le> exp (- 2000)" using t(2) by simp
  then have "exp t < 1 / 2 ^ 1075" by (rule le_less_trans[OF _ exp_minus_2000_lt])
  moreover have "\<bar>exp t\<bar> = exp t" by simp
  ultimately have "\<bar>exp t\<bar> < 1 / 2 ^ 1075" by (simp only:)
  then have "rnd (exp t) = 0" by (rule rnd_underflow)
  then have e: "np_exp (Finite t) = Finite 0" by (simp add: fl_def)
  have "\<exists>a. np_power (Finite 1000) ALPHA_MASS = Finite a"
  proof -
    define al where "al = rnd (9825 / 10000)"
    have al: "1 / 2 \<le> al" "al \<le> 1" using alpha_bounds unfolding al_def by simp_all
    have "1000 powr al \<le> 1000 powr 1" using al by (intro powr_mono) simp_all
    then have "0 \<le> rnd (1000 powr al) \<and> rnd (1000 powr al) \<le> 1000"
      by (intro rnd_between) (simp_all add: rnd_numeral_small)
    then have "fl (1000 powr al) = Finite (rnd (1000 powr al))" by (rule fl_Finite_bounded) simp_all
    then show ?thesis unfolding ALPHA_MASS_def lit_def al_def[symmetric] np_power_def using al by simp
  qed
  then obtain a where a: "np_power (Finite 1000) ALPHA_MASS = Finite a" by blast
  show ?thesis unfolding M_term_def py_max_large[of 1000, simplified] t(1) e a by (simp add: fl_def)
qed

lemma KAPPA_PInf: "fmul KAPPA PInf = PInf"
  unfolding KAPPA_def lit_def using kappa_bounds by simp

lemma Phi_1000: "Phi (Finite 1000) (Finite 1000) = NaN"
  unfolding Phi_def Z_term_1000 M_term_1000 KAPPA_PInf by simp

lemma Phi_1_20: "\<exists>p. Phi (Finite 1) (Finite 20) = Finite p \<and> 2 ^ 58 \<le> p \<and> p \<le> 2 ^ 131"
proof -
  obtain t where t: "Z_term (Finite 20) = Finite t" "2 ^ 66 \<le> t" "t \<le> 2 ^ 133"
    using Z_term_20 by blast
  obtain e where e: "M_term (Finite 1) = Finite e" "1 / 32 \<le> e" "e \<le> 1"
    using M_term_1 by blast
  define k where "k = rnd (2121 / 10000)"
  have k: "1 / 8 \<le> k" "k \<le> 1 / 4" using kappa_bounds unfolding k_def by simp_all
  have "1 / 8 * 2 ^ 66 \<le> k * t" using k t by (intro mult_mono) simp_all
  then have lo: "2 ^ 63 \<le> k * t" by simp
  have "k * t \<le> 1 / 4 * 2 ^ 133" using k t by (intro mult_mono) simp_all
  then have hi: "k * t \<le> 2 ^ 131" by simp
  have kt: "2 ^ 63 \<le> rnd (k * t) \<and> rnd (k * t) \<le> 2 ^ 131"
    by (rule rnd_between[OF lo hi rnd_pow2 rnd_pow2])
  then have f1: "fl (k * t) = Finite (rnd (k * t))" by (rule fl_Finite_bounded) simp_all
  have "2 ^ 63 * (1 / 32) \<le> rnd (k * t) * e" using kt e by (intro mult_mono) simp_all
  then have lo2: "2 ^ 58 \<le> rnd (k * t) * e" by simp
  have "rnd (k * t) * e \<le> 2 ^ 131 * 1" using kt e by (intro mult_mono) simp_all
  then have hi2: "rnd (k * t) * e \<le> 2 ^ 131" by simp
  have p: "2 ^ 58 \<le> rnd (rnd (k * t) * e) \<and> rnd (rnd (k * t) * e) \<le> 2 ^ 131"
    by (rule rnd_between[OF lo2 hi2 rnd_pow2 rnd_pow2])
  then have "fl (rnd (k * t) * e) = Finite (rnd (rnd (k * t) * e))" by (rule fl_Finite_bounded) simp_all
  then have "Phi (Finite 1) (Finite 20) = Finite (rnd (rnd (k * t) * e))"
    unfolding Phi_def t(1) e(1) KAPPA_def lit_def k_def[symmetric] by (simp add: f1)
  then show ?thesis using p by blast
qed

lemma base0_1_20: "\<exists>b. base0 (Finite 1) (Finite 20) = Finite b \<and> 2 ^ 57 \<le> b"
proof -
  obtain p where p: "Phi (Finite 1) (Finite 20) = Finite p" "2 ^ 58 \<le> p" "p \<le> 2 ^ 131"
    using Phi_1_20 by blast
  define q where "q = rnd (1 - rnd (18591 / 10000))"
  have q: "- 1 \<le> q" "q \<le> - (1 / 2)" using one_minus_Q_bounds unfolding q_def by simp_all
  have "1 / 2 * 2 ^ 58 \<le> (- q) * p" using q p by (intro mult_mono) simp_all
  then have hi: "q * p \<le> - (2 ^ 57)" by simp
  have "(- q) * p \<le> 1 * 2 ^ 131" using q p by (intro mult_mono) simp_all
  then have lo: "- (2 ^ 131) \<le> q * p" by simp
  have r: "rnd (- (2 ^ 131)) = - (2 ^ 131)" "rnd (- (2 ^ 57)) = - (2 ^ 57)"
    by (simp_all only: rnd_minus rnd_pow2)
  have y: "- (2 ^ 131) \<le> rnd (q * p) \<and> rnd (q * p) \<le> - (2 ^ 57)"
    by (rule rnd_between[OF lo hi r])
  then have f1: "fl (q * p) = Finite (rnd (q * p))" by (rule fl_Finite_bounded) simp_all
  have lo2: "2 ^ 57 \<le> 1 - rnd (q * p)" using y by simp
  have "1 - rnd (q * p) \<le> 1 + 2 ^ 131" using y by simp
  then have hi2: "1 - rnd (q * p) \<le> 2 ^ 132" by simp
  have b: "2 ^ 57 \<le> rnd (1 - rnd (q * p)) \<and> rnd (1 - rnd (q * p)) \<le> 2 ^ 132"
    by (rule rnd_between[OF lo2 hi2 rnd_pow2 rnd_pow2])
  then have "fl (1 - rnd (q * p)) = Finite (rnd (1 - rnd (q * p)))" by (rule fl_Finite_bounded) simp_all
  then have "base0 (Finite 1) (Finite 20) = Finite (rnd (1 - rnd (q * p)))"
    unfolding base0_def one_minus_Q q_def[symmetric] p(1) by (simp add: f1)
  then show ?thesis using b by blast
qed

lemma P_final_1_20: "P_final (Finite 1) (Finite 20) = Inr (Finite 1)"
proof -
  obtain b where b: "base0 (Finite 1) (Finite 20) = Finite b" "2 ^ 57 \<le> b"
    using base0_1_20 by blast
  define c where "c = rnd (1 / rnd (1 - rnd (18591 / 10000)))"
  have c: "- 2 \<le> c" "c \<le> - 1" using exponent_bounds unfolding c_def by simp_all
  have b1: "1 < b" using b(2) by (rule less_le_trans[rotated]) simp
  have "b powr c \<le> b powr (- 1)" using c b1 by (intro powr_mono) simp_all
  also have "\<dots> = 1 / b" using b1 by (simp add: powr_minus_divide)
  also have "\<dots> \<le> 1 / 2 ^ 57" using b(2) by (intro divide_left_mono) simp_all
  finally have hi: "b powr c \<le> 1 / 2 ^ 57" .
  have r: "rnd (1 / 2 ^ 57) = 1 / 2 ^ 57" using rnd_int_div_pow2[of 1 57] by simp
  have lo: "0 \<le> b powr c" by simp
  have e: "0 \<le> rnd (b powr c) \<and> rnd (b powr c) \<le> 1 / 2 ^ 57"
    by (rule rnd_between[OF lo hi rnd_0 r])
  then have fe: "fl (b powr c) = Finite (rnd (b powr c))" by (rule fl_Finite_bounded) simp_all
  have "eq_minus_Phi (Finite 1) (Finite 20) = Inr (np_power (Finite b) (Finite c))"
    unfolding eq_minus_Phi_def exponent_value base_is_base0 b(1) c_def by simp
  then have q: "eq_minus_Phi (Finite 1) (Finite 20) = Inr (Finite (rnd (b powr c)))"
    unfolding np_power_def using b1 c fe by simp
  have "(1::real) / 2 ^ 57 \<le> 1 / 2 ^ 55" by simp
  then have "1 - 1 / 2 ^ 55 \<le> 1 - rnd (b powr c)" using e by linarith
  moreover have "1 - rnd (b powr c) \<le> 1" using e by simp
  ultimately have "rnd (1 - rnd (b powr c)) = 1" by (rule rnd_near_one)
  then have "fl (1 - rnd (b powr c)) = Finite 1" by (simp add: fl_def)
  then show ?thesis unfolding P_final_def q by simp
qed

lemma digit_chars:
  "digit 0 = CHR ''0''" "digit 1 = CHR ''1''" "digit 2 = CHR ''2''" "digit 3 = CHR ''3''"
  "digit 4 = CHR ''4''" "digit 5 = CHR ''5''" "digit 6 = CHR ''6''" "digit 7 = CHR ''7''"
  "digit 8 = CHR ''8''" "digit 9 = CHR ''9''" "digit (Suc 0) = CHR ''1''"
  unfolding digit_def by code_simp+

lemma show_nat_small: "n < 10 \<Longrightarrow> show_nat n = [digit n]"
  by (simp add: show_nat.simps[of n])

lemma show_nat_100: "show_nat 100 = ''100''"
  by (simp add: show_nat.simps[of 100] show_nat.simps[of 10] show_nat_small digit_chars)

lemma result_1_20:
  "calculate_exoplanet_probability (PyFloat (Finite 1)) (PyFloat (Finite 20)) = Inr ''100.00%''"
proof -
  have "fl (1 * 100) = Finite 100" by (simp add: fl_def rnd_numeral_small)
  then have "P_percent (Finite 1) (Finite 20) = Inr (Finite 100)"
    unfolding P_percent_def P_final_1_20 by simp
  moreover have "format_2f (Finite 100) = ''100.00''"
    unfolding format_2f_def Let_def by (simp add: show_nat_100 digit_chars)
  ultimately show ?thesis unfolding result_of_percent by simp
qed

section \<open>The clamp, the potential and the probability\<close>

lemma Z_term_moderate_finite: "- 2 \<le> z \<Longrightarrow> z \<le> 8 \<Longrightarrow> is_finite (Z_term (Finite z))"
  using Z_term_moderate[of z] unfolding is_finite_def by auto

lemma M_term_moderate_finite: "1 / 16 \<le> m \<Longrightarrow> m \<le> 4 \<Longrightarrow> is_finite (M_term (Finite m))"
  using M_term_moderate[of m] unfolding is_finite_def by auto

text \<open>
  Claim C2, as stated, fails: at the input the specification suggests, \<open>M = 1.0\<close> and
  \<open>Z = 5.0\<close>, the base of line 26 is at least 1 and the branch of line 28 is not taken.
\<close>

theorem clamp_idle_at_suggested_input:
  "fle (Finite 1) (base0 (Finite 1) (Finite 5)) \<and> \<not> clamp_fires (Finite 1) (Finite 5)"
proof -
  have "Phi (Finite 1) (Finite 5) \<noteq> NaN" by (intro Phi_moderate) simp_all
  then show ?thesis using base0_cases[of "Finite 1" "Finite 5"] clamp_never_fires by blast
qed

text \<open>
  Claim C2, amended. For no input pair is the base of line 26 at most zero: it is at least
  1, or NaN when \<open>Phi\<close> is NaN. The branch of line 28 is never taken, and the base that
  reaches the power step is the base of line 26.
\<close>

theorem clamp_never_taken:
  "\<not> clamp_fires M Z \<and> base M Z = base0 M Z
   \<and> (base0 M Z = NaN \<or> fle (Finite 1) (base0 M Z))"
  using clamp_never_fires[of M Z] base_is_base0[of M Z] base0_cases[of M Z] by blast

text \<open>
  Claim C9, as stated, fails: at the finite inputs \<open>M = 1000\<close>, \<open>Z = 1000\<close> the metallicity
  term overflows to \<open>+inf\<close>, the exponential factor underflows to 0, and \<open>Phi\<close> is NaN; the
  function returns \<^verbatim>\<open>nan%\<close>.
\<close>

theorem Phi_NaN_at_extreme_input:
  "Phi (Finite 1000) (Finite 1000) = NaN
   \<and> \<not> fle (Finite 0) (Phi (Finite 1000) (Finite 1000))
   \<and> calculate_exoplanet_probability (PyFloat (Finite 1000)) (PyFloat (Finite 1000)) = Inr ''nan%''"
  using Phi_1000 result_NaN[OF Phi_1000] by (simp add: fle_def)

text \<open>
  Claim C9, amended. For every input pair \<open>Phi\<close> is never negative: it is NaN or at least
  zero; and it is at least zero whenever the metallicity term and the mass term are both
  finite.
\<close>

theorem Phi_never_negative:
  "(Phi M Z = NaN \<or> fle (Finite 0) (Phi M Z))
   \<and> (is_finite (Z_term Z) \<and> is_finite (M_term M) \<longrightarrow> fle (Finite 0) (Phi M Z))"
  using nn_Phi[of M Z] Phi_not_NaN[of Z M] unfolding nonneg_or_nan_def by blast

theorem Phi_never_negative_witness:
  "is_finite (Z_term (Finite 0)) \<and> is_finite (M_term (Finite 1))
   \<and> fle (Finite 0) (Phi (Finite 1) (Finite 0))"
proof -
  have a: "is_finite (Z_term (Finite 0))" by (rule Z_term_moderate_finite) simp_all
  have b: "is_finite (M_term (Finite 1))" by (rule M_term_moderate_finite) simp_all
  show ?thesis using a b Phi_never_negative[of "Finite 1" "Finite 0"] by blast
qed

text \<open>
  Claim C10, as stated, fails: at \<open>M = 1\<close>, \<open>Z = 20\<close> the potential \<open>Phi\<close> is finite, yet
  \<open>eq_minus_Phi\<close> is below half an ulp of 1 and \<open>P = 1.0 - eq_minus_Phi\<close> is exactly 1, which
  is not in \<open>[0, 1)\<close>; the function returns \<^verbatim>\<open>100.00%\<close>.
\<close>

theorem P_reaches_one:
  "is_finite (Phi (Finite 1) (Finite 20))
   \<and> P_final (Finite 1) (Finite 20) = Inr (Finite 1)
   \<and> calculate_exoplanet_probability (PyFloat (Finite 1)) (PyFloat (Finite 20)) = Inr ''100.00%''"
  using Phi_1_20 P_final_1_20 result_1_20 unfolding is_finite_def by auto

text \<open>
  Claim C10, amended. For every input pair for which \<open>Phi\<close> is finite, the base of line 26
  is at least 1, the branch of line 28 is not taken, the base of the power step is not
  zero, \<open>eq_minus_Phi\<close> is a double in \<open>[0, 1]\<close> and \<open>P\<close> is a double in \<open>[0, 1]\<close>.
\<close>

theorem finite_Phi_bounds:
  assumes "is_finite (Phi M Z)"
  shows "fle (Finite 1) (base0 M Z) \<and> \<not> clamp_fires M Z \<and> base M Z \<noteq> Finite 0
         \<and> (\<exists>q p. eq_minus_Phi M Z = Inr (Finite q) \<and> 0 \<le> q \<and> q \<le> 1
                \<and> P_final M Z = Inr (Finite p) \<and> 0 \<le> p \<and> p \<le> 1)"
proof -
  have n: "Phi M Z \<noteq> NaN" using assms unfolding is_finite_def by auto
  have b: "fle (Finite 1) (base0 M Z)" using base0_cases[of M Z] n by blast
  then have "base0 M Z \<noteq> Finite 0" by auto
  then have z: "base M Z \<noteq> Finite 0" unfolding base_is_base0 .
  obtain q where q: "eq_minus_Phi M Z = Inr (Finite q)" "0 \<le> q" "q \<le> 1"
    using eq_minus_Phi_cases[of M Z] n by blast
  obtain p where p: "P_final M Z = Inr (Finite p)" "0 \<le> p" "p \<le> 1"
    using P_final_cases[of M Z] n by blast
  show ?thesis using b z q p clamp_never_fires[of M Z] by blast
qed

theorem finite_Phi_bounds_witness:
  "is_finite (Phi (Finite 1) (Finite 20))
   \<and> fle (Finite 1) (base0 (Finite 1) (Finite 20))
   \<and> \<not> clamp_fires (Finite 1) (Finite 20)
   \<and> base (Finite 1) (Finite 20) \<noteq> Finite 0"
proof -
  have a: "is_finite (Phi (Finite 1) (Finite 20))" using Phi_1_20 unfolding is_finite_def by auto
  show ?thesis using a finite_Phi_bounds[OF a] by blast
qed

section \<open>Bounds on the exponential\<close>

lemma exp_ge_taylor:
  fixes x :: real
  assumes "0 \<le> x"
  shows "(\<Sum>k<n. x ^ k / fact k) \<le> exp x"
proof -
  have s: "summable (\<lambda>k. x ^ k /\<^sub>R fact k)" by (rule summable_exp_generic)
  have "(\<Sum>k<n. x ^ k /\<^sub>R fact k) \<le> (\<Sum>k. x ^ k /\<^sub>R fact k)"
    using assms by (intro sum_le_suminf[OF s]) simp_all
  then show ?thesis unfolding exp_def by (simp add: divide_inverse mult.commute)
qed

lemma exp_le_taylor:
  fixes x :: real
  assumes "0 \<le> x" "x ^ n / fact n < 1"
  shows "exp x \<le> (\<Sum>k<n. x ^ k / fact k) / (1 - x ^ n / fact n)"
proof -
  obtain t where t: "\<bar>t\<bar> \<le> \<bar>x\<bar>" "exp x = (\<Sum>m<n. (x ^ m) / fact m) + (exp t / fact n) * x ^ n"
    using Maclaurin_exp_le[of x n] by blast
  have "t \<le> x" using t(1) assms(1) by simp
  then have "exp t \<le> exp x" by simp
  then have "(exp t / fact n) * x ^ n \<le> (exp x / fact n) * x ^ n"
    using assms(1) by (intro mult_right_mono divide_right_mono) simp_all
  then have "exp x \<le> (\<Sum>m<n. (x ^ m) / fact m) + exp x * (x ^ n / fact n)"
    using t(2) by simp
  then have "exp x * (1 - x ^ n / fact n) \<le> (\<Sum>m<n. (x ^ m) / fact m)"
    by (simp add: algebra_simps)
  then show ?thesis using assms(2) by (simp add: pos_le_divide_eq)
qed

lemma taylor6: "(\<Sum>k<6. x ^ k / fact k) = 1 + x + x ^ 2 / 2 + x ^ 3 / 6 + x ^ 4 / 24 + x ^ 5 / (120 :: real)"
  by (simp add: eval_nat_numeral lessThan_Suc)

lemma exp_lower6:
  fixes x :: real
  assumes "0 \<le> x"
  shows "1 + x + x ^ 2 / 2 + x ^ 3 / 6 + x ^ 4 / 24 + x ^ 5 / 120 \<le> exp x"
  using exp_ge_taylor[OF assms, of 6] unfolding taylor6 .

lemma exp_upper6:
  fixes x :: real
  assumes "0 \<le> x" "x ^ 6 < 720"
  shows "exp x \<le> (1 + x + x ^ 2 / 2 + x ^ 3 / 6 + x ^ 4 / 24 + x ^ 5 / 120) / (1 - x ^ 6 / 720)"
proof -
  have f: "fact 6 = (720 :: real)" by (simp add: eval_nat_numeral)
  have "x ^ 6 / fact 6 < 1" unfolding f using assms(2) by simp
  then show ?thesis using exp_le_taylor[OF assms(1), of 6] unfolding taylor6 f by simp
qed

lemma round_half_even_nearest:
  assumes "of_int k - 1 / 2 < x" "x < of_int k + 1 / 2"
  shows "round_half_even x = k"
proof (cases "of_int k \<le> x")
  case True
  then have f: "\<lfloor>x\<rfloor> = k" using assms(2) by (simp add: floor_eq_iff)
  show ?thesis unfolding round_half_even_def Let_def f using assms(2) by simp
next
  case False
  then have f: "\<lfloor>x\<rfloor> = k - 1" using assms(1) by (simp add: floor_eq_iff)
  show ?thesis unfolding round_half_even_def Let_def f using assms(1) by simp
qed

lemma fl_enclose:
  assumes "lo \<le> x" "x \<le> hi" "rnd lo = lo" "rnd hi = hi" "- (2 ^ 1024) < lo" "hi < 2 ^ 1024"
  shows "\<exists>y. fl x = Finite y \<and> lo \<le> y \<and> y \<le> hi"
proof -
  have b: "lo \<le> rnd x \<and> rnd x \<le> hi" by (rule rnd_between[OF assms(1-4)])
  then have "fl x = Finite (rnd x)" using assms(5,6) by (rule fl_Finite_bounded)
  then show ?thesis using b by blast
qed

lemma rnd_grid40: "\<bar>k\<bar> < 2 ^ 53 \<Longrightarrow> rnd (of_int k / 2 ^ 40) = of_int k / 2 ^ 40"
  by (rule rnd_int_div_pow2) simp_all

section \<open>The solar reference point\<close>

lemma mult_enclose_pos:
  fixes x y :: real
  assumes "0 \<le> a1" "a1 \<le> x" "x \<le> a2" "0 \<le> b1" "b1 \<le> y" "y \<le> b2" "lo \<le> a1 * b1" "a2 * b2 \<le> hi"
  shows "lo \<le> x * y \<and> x * y \<le> hi"
proof -
  have "a1 * b1 \<le> x * y" using assms(1,2,4,5) by (intro mult_mono) simp_all
  moreover have "x * y \<le> a2 * b2" using assms(1-6) by (intro mult_mono) simp_all
  ultimately show ?thesis using assms(7,8) by simp
qed

lemma mult_enclose_neg_pos:
  fixes x y :: real
  assumes "a1 \<le> x" "x \<le> a2" "a2 \<le> 0" "0 \<le> b1" "b1 \<le> y" "y \<le> b2" "lo \<le> a1 * b2" "a2 * b1 \<le> hi"
  shows "lo \<le> x * y \<and> x * y \<le> hi"
proof -
  have "(- a2) * b1 \<le> (- x) * y" using assms(2-5) by (intro mult_mono) simp_all
  moreover have "(- x) * y \<le> (- a1) * b2" using assms(1-6) by (intro mult_mono) simp_all
  ultimately show ?thesis using assms(7,8) by simp
qed

text \<open>Enclosures of the three constants that matter at \<open>M = 1\<close>, \<open>Z = 0\<close>, on the grid \<open>2^-40\<close>.\<close>

lemma beta_tight: "2464335411334 / 2 ^ 40 \<le> rnd (22413 / 10000) \<and> rnd (22413 / 10000) \<le> 2464335411335 / 2 ^ 40"
proof (rule rnd_between)
  show "rnd (2464335411334 / 2 ^ 40) = 2464335411334 / 2 ^ 40" using rnd_grid40[of 2464335411334] by simp
  show "rnd (2464335411335 / 2 ^ 40) = 2464335411335 / 2 ^ 40" using rnd_grid40[of 2464335411335] by simp
qed simp_all

lemma kappa_tight: "233206416251 / 2 ^ 40 \<le> rnd (2121 / 10000) \<and> rnd (2121 / 10000) \<le> 233206416252 / 2 ^ 40"
proof (rule rnd_between)
  show "rnd (233206416251 / 2 ^ 40) = 233206416251 / 2 ^ 40" using rnd_grid40[of 233206416251] by simp
  show "rnd (233206416252 / 2 ^ 40) = 233206416252 / 2 ^ 40" using rnd_grid40[of 233206416252] by simp
qed simp_all

lemma Q_tight: "2044102067198 / 2 ^ 40 \<le> rnd (18591 / 10000) \<and> rnd (18591 / 10000) \<le> 2044102067199 / 2 ^ 40"
proof (rule rnd_between)
  show "rnd (2044102067198 / 2 ^ 40) = 2044102067198 / 2 ^ 40" using rnd_grid40[of 2044102067198] by simp
  show "rnd (2044102067199 / 2 ^ 40) = 2044102067199 / 2 ^ 40" using rnd_grid40[of 2044102067199] by simp
qed simp_all


lemma exp_neg_upper6:
  fixes y h :: real
  assumes "0 \<le> y" "0 \<le> h" "1 \<le> h * (1 + y + y ^ 2 / 2 + y ^ 3 / 6 + y ^ 4 / 24 + y ^ 5 / 120)"
  shows "exp (- y) \<le> h"
proof -
  have "h * (1 + y + y ^ 2 / 2 + y ^ 3 / 6 + y ^ 4 / 24 + y ^ 5 / 120) \<le> h * exp y"
    using exp_lower6[OF assms(1)] assms(2) by (rule mult_left_mono)
  then have "1 \<le> h * exp y" using assms(3) by simp
  then have "1 / exp y \<le> h" by (simp add: pos_divide_le_eq)
  then show ?thesis by (simp add: exp_minus inverse_eq_divide)
qed

lemma exp_neg_lower6:
  fixes y l :: real
  assumes "0 \<le> y" "y ^ 6 < 720" "0 \<le> l"
    "l * ((1 + y + y ^ 2 / 2 + y ^ 3 / 6 + y ^ 4 / 24 + y ^ 5 / 120) / (1 - y ^ 6 / 720)) \<le> 1"
  shows "l \<le> exp (- y)"
proof -
  have "l * exp y \<le> l * ((1 + y + y ^ 2 / 2 + y ^ 3 / 6 + y ^ 4 / 24 + y ^ 5 / 120) / (1 - y ^ 6 / 720))"
    using exp_upper6[OF assms(1,2)] assms(3) by (rule mult_left_mono)
  then have "l * exp y \<le> 1" using assms(4) by simp
  then have "l \<le> 1 / exp y" by (simp add: pos_le_divide_eq)
  then show ?thesis by (simp add: exp_minus inverse_eq_divide)
qed

lemma exp_eighth_power: "exp (x :: real) = exp (x / 8) ^ 8"
  using exp_of_nat_mult[of 8 "x / 8"] by simp

lemma exp_eighth_upper: "exp (2464335411335 / 2 ^ 40 / 8) \<le> (1455033245535 / 2 ^ 40 :: real)"
proof -
  define x :: real where "x = 2464335411335 / 2 ^ 40 / 8"
  have "exp x \<le> (1 + x + x ^ 2 / 2 + x ^ 3 / 6 + x ^ 4 / 24 + x ^ 5 / 120) / (1 - x ^ 6 / 720)"
    by (rule exp_upper6) (simp_all add: x_def power_divide)
  also have "\<dots> \<le> 1455033245535 / 2 ^ 40" unfolding x_def by (simp add: power_divide)
  finally show ?thesis unfolding x_def .
qed

lemma exp_eighth_lower: "(1455032268296 / 2 ^ 40 :: real) \<le> exp (2464335411334 / 2 ^ 40 / 8)"
proof -
  define x :: real where "x = 2464335411334 / 2 ^ 40 / 8"
  have "1455032268296 / 2 ^ 40 \<le> 1 + x + x ^ 2 / 2 + x ^ 3 / 6 + x ^ 4 / 24 + x ^ 5 / 120"
    unfolding x_def by (simp add: power_divide)
  also have "\<dots> \<le> exp x" by (rule exp_lower6) (simp add: x_def)
  finally show ?thesis unfolding x_def .
qed

lemma exp_beta_enclosure:
  fixes t :: real
  assumes "- (2464335411335 / 2 ^ 40) \<le> t" "t \<le> - (2464335411334 / 2 ^ 40)"
  shows "116900160446 / 2 ^ 40 \<le> exp t \<and> exp t \<le> 116900788555 / 2 ^ 40"
proof -
  define bh :: real where "bh = 2464335411335 / 2 ^ 40"
  define bl :: real where "bl = 2464335411334 / 2 ^ 40"
  define u :: real where "u = 1455033245535 / 2 ^ 40"
  define l :: real where "l = 1455032268296 / 2 ^ 40"
  define el :: real where "el = 116900160446 / 2 ^ 40"
  define eh :: real where "eh = 116900788555 / 2 ^ 40"
  have "exp (bh / 8) \<le> u" unfolding bh_def u_def by (rule exp_eighth_upper)
  then have "exp (bh / 8) ^ 8 \<le> u ^ 8" by (intro power_mono) simp_all
  then have "exp bh \<le> u ^ 8" by (simp only: exp_eighth_power[of bh])
  then have "el * exp bh \<le> el * u ^ 8" by (intro mult_left_mono) (simp_all add: el_def)
  also have "\<dots> \<le> 1" unfolding el_def u_def by (simp add: power_divide)
  finally have "el \<le> 1 / exp bh" by (simp add: pos_le_divide_eq)
  then have lo: "el \<le> exp (- bh)" by (simp add: exp_minus inverse_eq_divide)
  have "l \<le> exp (bl / 8)" unfolding bl_def l_def by (rule exp_eighth_lower)
  then have "l ^ 8 \<le> exp (bl / 8) ^ 8" by (intro power_mono) (simp_all add: l_def)
  then have "l ^ 8 \<le> exp bl" by (simp only: exp_eighth_power[of bl])
  then have "eh * l ^ 8 \<le> eh * exp bl" by (intro mult_left_mono) (simp_all add: eh_def)
  moreover have "1 \<le> eh * l ^ 8" unfolding eh_def l_def by (simp add: power_divide)
  ultimately have "1 \<le> eh * exp bl" by simp
  then have "1 / exp bl \<le> eh" by (simp add: pos_divide_le_eq)
  then have hi: "exp (- bl) \<le> eh" by (simp add: exp_minus inverse_eq_divide)
  have "exp (- bh) \<le> exp t" using assms(1) unfolding bh_def by simp
  moreover have "exp t \<le> exp (- bl)" using assms(2) unfolding bl_def by simp
  ultimately have "el \<le> exp t \<and> exp t \<le> eh" using lo hi by linarith
  then show ?thesis unfolding el_def eh_def .
qed

lemma ln_base_lower: "exp (21097268094 / 2 ^ 40) \<le> (1120812603370 / 2 ^ 40 :: real)"
proof -
  define x :: real where "x = 21097268094 / 2 ^ 40"
  have "exp x \<le> (1 + x + x ^ 2 / 2 + x ^ 3 / 6 + x ^ 4 / 24 + x ^ 5 / 120) / (1 - x ^ 6 / 720)"
    by (rule exp_upper6) (simp_all add: x_def power_divide)
  also have "\<dots> \<le> 1120812603370 / 2 ^ 40" unfolding x_def by (simp add: power_divide)
  finally show ?thesis unfolding x_def .
qed

lemma ln_base_upper: "(1120812717823 / 2 ^ 40 :: real) \<le> exp (21097382421 / 2 ^ 40)"
proof -
  define x :: real where "x = 21097382421 / 2 ^ 40"
  have "1120812717823 / 2 ^ 40 \<le> 1 + x + x ^ 2 / 2 + x ^ 3 / 6 + x ^ 4 / 24 + x ^ 5 / 120"
    unfolding x_def by (simp add: power_divide)
  also have "\<dots> \<le> exp x" by (rule exp_lower6) (simp add: x_def)
  finally show ?thesis unfolding x_def .
qed

lemma exp_powr_real: "exp (l :: real) powr c = exp (c * l)"
  by (simp add: powr_def)

lemma power_enclosure:
  fixes b c :: real
  assumes "1120812603370 / 2 ^ 40 \<le> b" "b \<le> 1120812717823 / 2 ^ 40" "- (1279841261526 / 2 ^ 40) \<le> c" "c \<le> - (1279841261523 / 2 ^ 40)"
  shows "1075226303335 / 2 ^ 40 \<le> b powr c \<and> b powr c \<le> 1075226433474 / 2 ^ 40"
proof -
  define l1 :: real where "l1 = 21097268094 / 2 ^ 40"
  define l2 :: real where "l2 = 21097382421 / 2 ^ 40"
  define cl :: real where "cl = - (1279841261526 / 2 ^ 40)"
  define ch :: real where "ch = - (1279841261523 / 2 ^ 40)"
  have c: "cl \<le> c" "c \<le> ch" "c \<le> 0" using assms(3,4) unfolding cl_def ch_def by simp_all
  have l: "0 \<le> l1" "0 \<le> l2" unfolding l1_def l2_def by simp_all
  have b1: "exp l1 \<le> b" using ln_base_lower assms(1) unfolding l1_def by (rule order_trans)
  have b2: "b \<le> exp l2" using assms(2) ln_base_upper unfolding l2_def by (rule order_trans)
  have bpos: "0 < b" using b1 exp_gt_zero[of l1] by linarith
  have "b powr c \<le> exp l1 powr c" using c(3) b1 by (intro powr_mono2') simp_all
  also have "\<dots> = exp (c * l1)" by (rule exp_powr_real)
  also have "\<dots> \<le> exp (ch * l1)" using c(2) l(1) by (simp add: mult_right_mono)
  also have "\<dots> = exp (- (- ch * l1))" by simp
  also have "\<dots> \<le> 1075226433474 / 2 ^ 40"
    by (rule exp_neg_upper6) (simp_all add: ch_def l1_def power_divide)
  finally have hi: "b powr c \<le> 1075226433474 / 2 ^ 40" .
  have "1075226303335 / 2 ^ 40 \<le> exp (- (- cl * l2))"
    by (rule exp_neg_lower6) (simp_all add: cl_def l2_def power_divide)
  also have "\<dots> = exp (cl * l2)" by simp
  also have "\<dots> \<le> exp (c * l2)" using c(1) l(2) by (simp add: mult_right_mono)
  also have "\<dots> = exp l2 powr c" by (rule exp_powr_real[symmetric])
  also have "\<dots> \<le> b powr c" using c(3) b2 bpos by (intro powr_mono2') simp_all
  finally have lo: "1075226303335 / 2 ^ 40 \<le> b powr c" .
  show ?thesis using lo hi by simp
qed

lemma Z_term_0: "Z_term (Finite 0) = Finite 1"
  unfolding Z_term_def A_MET_def lit_def np_power_def by (simp add: fl_def)

lemma M_term_solar:
  "\<exists>e. M_term (Finite 1) = Finite e \<and> 116900160446 / 2 ^ 40 \<le> e \<and> e \<le> 116900788555 / 2 ^ 40"
proof -
  define be where "be = rnd (22413 / 10000)"
  have be: "2464335411334 / 2 ^ 40 \<le> be" "be \<le> 2464335411335 / 2 ^ 40" using beta_tight unfolding be_def by simp_all
  have r1: "rnd (- (2464335411335 / 2 ^ 40)) = - (2464335411335 / 2 ^ 40)" using rnd_grid40[of "- 2464335411335"] by simp
  have r2: "rnd (- (2464335411334 / 2 ^ 40)) = - (2464335411334 / 2 ^ 40)" using rnd_grid40[of "- 2464335411334"] by simp
  have r3: "rnd (116900160446 / 2 ^ 40) = 116900160446 / 2 ^ 40" using rnd_grid40[of 116900160446] by simp
  have r4: "rnd (116900788555 / 2 ^ 40) = 116900788555 / 2 ^ 40" using rnd_grid40[of 116900788555] by simp
  have "\<exists>t. fl (- be) = Finite t \<and> - (2464335411335 / 2 ^ 40) \<le> t \<and> t \<le> - (2464335411334 / 2 ^ 40)"
    by (rule fl_enclose[OF _ _ r1 r2]) (use be in simp_all)
  then obtain t where t: "fl (- be) = Finite t" "- (2464335411335 / 2 ^ 40) \<le> t" "t \<le> - (2464335411334 / 2 ^ 40)" by blast
  have et: "116900160446 / 2 ^ 40 \<le> exp t \<and> exp t \<le> 116900788555 / 2 ^ 40" by (rule exp_beta_enclosure[OF t(2,3)])
  have "\<exists>e. fl (exp t) = Finite e \<and> 116900160446 / 2 ^ 40 \<le> e \<and> e \<le> 116900788555 / 2 ^ 40"
    by (rule fl_enclose[OF _ _ r3 r4]) (use et in simp_all)
  then obtain e0 where e0: "fl (exp t) = Finite e0" "116900160446 / 2 ^ 40 \<le> e0" "e0 \<le> 116900788555 / 2 ^ 40" by blast
  have "\<exists>e. fl e0 = Finite e \<and> 116900160446 / 2 ^ 40 \<le> e \<and> e \<le> 116900788555 / 2 ^ 40"
    by (rule fl_enclose[OF _ _ r3 r4]) (use e0 in simp_all)
  then obtain e where e: "fl e0 = Finite e" "116900160446 / 2 ^ 40 \<le> e" "e \<le> 116900788555 / 2 ^ 40" by blast
  have "M_term (Finite 1) = fmul (Finite 1) (np_exp (fl (- be)))"
    unfolding M_term_def py_max_large[of 1, simplified]
    unfolding BETA_MASS_def lit_def be_def by (simp add: np_power_def)
  then have "M_term (Finite 1) = Finite e" unfolding t(1) by (simp add: e0(1) e(1))
  then show ?thesis using e(2,3) by blast
qed

lemma Phi_solar:
  "\<exists>p. Phi (Finite 1) (Finite 0) = Finite p \<and> 24794524030 / 2 ^ 40 \<le> p \<and> p \<le> 24794657253 / 2 ^ 40"
proof -
  obtain e where e: "M_term (Finite 1) = Finite e" "116900160446 / 2 ^ 40 \<le> e" "e \<le> 116900788555 / 2 ^ 40"
    using M_term_solar by blast
  define k where "k = rnd (2121 / 10000)"
  have k: "233206416251 / 2 ^ 40 \<le> k" "k \<le> 233206416252 / 2 ^ 40" using kappa_tight unfolding k_def by simp_all
  have r1: "rnd (233206416251 / 2 ^ 40) = 233206416251 / 2 ^ 40" using rnd_grid40[of 233206416251] by simp
  have r2: "rnd (233206416252 / 2 ^ 40) = 233206416252 / 2 ^ 40" using rnd_grid40[of 233206416252] by simp
  have r3: "rnd (24794524030 / 2 ^ 40) = 24794524030 / 2 ^ 40" using rnd_grid40[of 24794524030] by simp
  have r4: "rnd (24794657253 / 2 ^ 40) = 24794657253 / 2 ^ 40" using rnd_grid40[of 24794657253] by simp
  have "\<exists>y. fl k = Finite y \<and> 233206416251 / 2 ^ 40 \<le> y \<and> y \<le> 233206416252 / 2 ^ 40"
    by (rule fl_enclose[OF _ _ r1 r2]) (use k in simp_all)
  then obtain k1 where k1: "fl k = Finite k1" "233206416251 / 2 ^ 40 \<le> k1" "k1 \<le> 233206416252 / 2 ^ 40" by blast
  have m: "24794524030 / 2 ^ 40 \<le> k1 * e \<and> k1 * e \<le> 24794657253 / 2 ^ 40"
    by (rule mult_enclose_pos[OF _ k1(2,3) _ e(2,3)]) simp_all
  have "\<exists>p. fl (k1 * e) = Finite p \<and> 24794524030 / 2 ^ 40 \<le> p \<and> p \<le> 24794657253 / 2 ^ 40"
    by (rule fl_enclose[OF _ _ r3 r4]) (use m in simp_all)
  then obtain p where p: "fl (k1 * e) = Finite p" "24794524030 / 2 ^ 40 \<le> p" "p \<le> 24794657253 / 2 ^ 40" by blast
  have "Phi (Finite 1) (Finite 0) = Finite p"
    unfolding Phi_def Z_term_0 e(1) KAPPA_def lit_def k_def[symmetric] by (simp add: k1(1) p(1))
  then show ?thesis using p(2,3) by blast
qed

lemma one_minus_Q_tight:
  "- (944590439423 / 2 ^ 40) \<le> rnd (1 - rnd (18591 / 10000)) \<and> rnd (1 - rnd (18591 / 10000)) \<le> - (944590439422 / 2 ^ 40)"
proof (rule rnd_between)
  show "rnd (- (944590439423 / 2 ^ 40)) = - (944590439423 / 2 ^ 40)" using rnd_grid40[of "- 944590439423"] by simp
  show "rnd (- (944590439422 / 2 ^ 40)) = - (944590439422 / 2 ^ 40)" using rnd_grid40[of "- 944590439422"] by simp
qed (use Q_tight in simp_all)

lemma base0_solar:
  "\<exists>b. base0 (Finite 1) (Finite 0) = Finite b \<and> 1120812603370 / 2 ^ 40 \<le> b \<and> b \<le> 1120812717823 / 2 ^ 40"
proof -
  obtain p where p: "Phi (Finite 1) (Finite 0) = Finite p" "24794524030 / 2 ^ 40 \<le> p" "p \<le> 24794657253 / 2 ^ 40"
    using Phi_solar by blast
  define q where "q = rnd (1 - rnd (18591 / 10000))"
  have q: "- (944590439423 / 2 ^ 40) \<le> q" "q \<le> - (944590439422 / 2 ^ 40)" using one_minus_Q_tight unfolding q_def by simp_all
  have r1: "rnd (- (21301090047 / 2 ^ 40)) = - (21301090047 / 2 ^ 40)" using rnd_grid40[of "- 21301090047"] by simp
  have r2: "rnd (- (21300975594 / 2 ^ 40)) = - (21300975594 / 2 ^ 40)" using rnd_grid40[of "- 21300975594"] by simp
  have r3: "rnd (1120812603370 / 2 ^ 40) = 1120812603370 / 2 ^ 40" using rnd_grid40[of 1120812603370] by simp
  have r4: "rnd (1120812717823 / 2 ^ 40) = 1120812717823 / 2 ^ 40" using rnd_grid40[of 1120812717823] by simp
  have m: "- (21301090047 / 2 ^ 40) \<le> q * p \<and> q * p \<le> - (21300975594 / 2 ^ 40)"
    by (rule mult_enclose_neg_pos[OF q _ _ p(2,3)]) simp_all
  have "\<exists>y. fl (q * p) = Finite y \<and> - (21301090047 / 2 ^ 40) \<le> y \<and> y \<le> - (21300975594 / 2 ^ 40)"
    by (rule fl_enclose[OF _ _ r1 r2]) (use m in simp_all)
  then obtain y where y: "fl (q * p) = Finite y" "- (21301090047 / 2 ^ 40) \<le> y" "y \<le> - (21300975594 / 2 ^ 40)" by blast
  have "\<exists>b. fl (1 - y) = Finite b \<and> 1120812603370 / 2 ^ 40 \<le> b \<and> b \<le> 1120812717823 / 2 ^ 40"
    by (rule fl_enclose[OF _ _ r3 r4]) (use y in simp_all)
  then obtain b where b: "fl (1 - y) = Finite b" "1120812603370 / 2 ^ 40 \<le> b" "b \<le> 1120812717823 / 2 ^ 40" by blast
  have "base0 (Finite 1) (Finite 0) = Finite b"
    unfolding base0_def one_minus_Q q_def[symmetric] p(1) by (simp add: y(1) b(1))
  then show ?thesis using b(2,3) by blast
qed

lemma exponent_tight:
  "- (1279841261526 / 2 ^ 40) \<le> rnd (1 / rnd (1 - rnd (18591 / 10000)))
   \<and> rnd (1 / rnd (1 - rnd (18591 / 10000))) \<le> - (1279841261523 / 2 ^ 40)"
proof -
  define q where "q = rnd (1 - rnd (18591 / 10000))"
  define cl :: real where "cl = - (1279841261526 / 2 ^ 40)"
  define ch :: real where "ch = - (1279841261523 / 2 ^ 40)"
  have q: "- (944590439423 / 2 ^ 40) \<le> q" "q \<le> - (944590439422 / 2 ^ 40)" using one_minus_Q_tight unfolding q_def by simp_all
  have qneg: "q < 0" using q(2) by simp
  have "cl * (- (944590439422 / 2 ^ 40)) \<le> cl * q" using q(2) unfolding cl_def by (intro mult_left_mono_neg) simp_all
  moreover have "1 \<le> cl * (- (944590439422 / 2 ^ 40))" unfolding cl_def by simp
  ultimately have "1 \<le> cl * q" by simp
  then have lo: "cl \<le> 1 / q" using qneg by (simp add: neg_le_divide_eq)
  have "ch * q \<le> ch * (- (944590439423 / 2 ^ 40))" using q(1) unfolding ch_def by (intro mult_left_mono_neg) simp_all
  moreover have "ch * (- (944590439423 / 2 ^ 40)) \<le> 1" unfolding ch_def by simp
  ultimately have "ch * q \<le> 1" by simp
  then have hi: "1 / q \<le> ch" using qneg by (simp add: neg_divide_le_eq)
  have r1: "rnd cl = cl" unfolding cl_def using rnd_grid40[of "- 1279841261526"] by simp
  have r2: "rnd ch = ch" unfolding ch_def using rnd_grid40[of "- 1279841261523"] by simp
  have "cl \<le> rnd (1 / q) \<and> rnd (1 / q) \<le> ch" by (rule rnd_between[OF lo hi r1 r2])
  then show ?thesis unfolding cl_def ch_def q_def .
qed

lemma eq_minus_Phi_solar:
  "\<exists>e. eq_minus_Phi (Finite 1) (Finite 0) = Inr (Finite e) \<and> 1075226303335 / 2 ^ 40 \<le> e \<and> e \<le> 1075226433474 / 2 ^ 40"
proof -
  obtain b where b: "base0 (Finite 1) (Finite 0) = Finite b" "1120812603370 / 2 ^ 40 \<le> b" "b \<le> 1120812717823 / 2 ^ 40"
    using base0_solar by blast
  define c where "c = rnd (1 / rnd (1 - rnd (18591 / 10000)))"
  have c: "- (1279841261526 / 2 ^ 40) \<le> c" "c \<le> - (1279841261523 / 2 ^ 40)" using exponent_tight unfolding c_def by simp_all
  have r1: "rnd (1075226303335 / 2 ^ 40) = 1075226303335 / 2 ^ 40" using rnd_grid40[of 1075226303335] by simp
  have r2: "rnd (1075226433474 / 2 ^ 40) = 1075226433474 / 2 ^ 40" using rnd_grid40[of 1075226433474] by simp
  have pw: "1075226303335 / 2 ^ 40 \<le> b powr c \<and> b powr c \<le> 1075226433474 / 2 ^ 40"
    by (rule power_enclosure[OF b(2,3) c])
  have "\<exists>e. fl (b powr c) = Finite e \<and> 1075226303335 / 2 ^ 40 \<le> e \<and> e \<le> 1075226433474 / 2 ^ 40"
    by (rule fl_enclose[OF _ _ r1 r2]) (use pw in simp_all)
  then obtain e where e: "fl (b powr c) = Finite e" "1075226303335 / 2 ^ 40 \<le> e" "e \<le> 1075226433474 / 2 ^ 40" by blast
  have b1: "1 < b" using b(2) by simp
  have c0: "c < 0" using c(2) by simp
  have "np_power (Finite b) (Finite c) = Finite e"
    unfolding np_power_def using b1 c0 e(1) by simp
  then have "eq_minus_Phi (Finite 1) (Finite 0) = Inr (Finite e)"
    unfolding eq_minus_Phi_def exponent_value base_is_base0 b(1) c_def[symmetric] by simp
  then show ?thesis using e(2,3) by blast
qed

lemma P_percent_solar:
  "\<exists>pp. P_percent (Finite 1) (Finite 0) = Inr (Finite pp) \<and> 2428519430200 / 2 ^ 40 \<le> pp \<and> pp \<le> 2428532444100 / 2 ^ 40"
proof -
  obtain e where e: "eq_minus_Phi (Finite 1) (Finite 0) = Inr (Finite e)" "1075226303335 / 2 ^ 40 \<le> e" "e \<le> 1075226433474 / 2 ^ 40"
    using eq_minus_Phi_solar by blast
  have r1: "rnd (24285194302 / 2 ^ 40) = 24285194302 / 2 ^ 40" using rnd_grid40[of 24285194302] by simp
  have r2: "rnd (24285324441 / 2 ^ 40) = 24285324441 / 2 ^ 40" using rnd_grid40[of 24285324441] by simp
  have r3: "rnd (2428519430200 / 2 ^ 40) = 2428519430200 / 2 ^ 40" using rnd_grid40[of 2428519430200] by simp
  have r4: "rnd (2428532444100 / 2 ^ 40) = 2428532444100 / 2 ^ 40" using rnd_grid40[of 2428532444100] by simp
  have "\<exists>p. fl (1 - e) = Finite p \<and> 24285194302 / 2 ^ 40 \<le> p \<and> p \<le> 24285324441 / 2 ^ 40"
    by (rule fl_enclose[OF _ _ r1 r2]) (use e in simp_all)
  then obtain p where p: "fl (1 - e) = Finite p" "24285194302 / 2 ^ 40 \<le> p" "p \<le> 24285324441 / 2 ^ 40" by blast
  have "\<exists>pp. fl (p * 100) = Finite pp \<and> 2428519430200 / 2 ^ 40 \<le> pp \<and> pp \<le> 2428532444100 / 2 ^ 40"
    by (rule fl_enclose[OF _ _ r3 r4]) (use p in simp_all)
  then obtain pp where pp: "fl (p * 100) = Finite pp" "2428519430200 / 2 ^ 40 \<le> pp" "pp \<le> 2428532444100 / 2 ^ 40" by blast
  have "P_percent (Finite 1) (Finite 0) = Inr (Finite pp)"
    unfolding P_percent_def P_final_def e(1) by (simp add: p(1) pp(1))
  then show ?thesis using pp(2,3) by blast
qed

lemma hundredths_221: "hundredths 221 = ''2.21''"
  unfolding hundredths_def by (simp add: show_nat_small digit_chars)

lemma result_solar:
  "calculate_exoplanet_probability (PyFloat (Finite 1)) (PyFloat (Finite 0)) = Inr ''2.21%''"
proof -
  obtain pp where pp: "P_percent (Finite 1) (Finite 0) = Inr (Finite pp)"
      "2428519430200 / 2 ^ 40 \<le> pp" "pp \<le> 2428532444100 / 2 ^ 40"
    using P_percent_solar by blast
  have "of_int 221 - 1 / 2 < pp * 100" "pp * 100 < of_int 221 + 1 / 2" using pp(2,3) by simp_all
  then have "round_half_even (pp * 100) = 221" by (rule round_half_even_nearest)
  moreover have "0 \<le> pp" using pp(2) by simp
  ultimately have "format_2f (Finite pp) = ''2.21''"
    by (simp add: format_2f_nonneg hundredths_221)
  then show ?thesis unfolding result_of_percent pp(1) by simp
qed

text \<open>
  Claim C4, as stated, fails: \<open>calculate_exoplanet_probability(1.0, 0.0)\<close> does not return
  \<^verbatim>\<open>2.19%\<close>.
\<close>

theorem solar_result_is_not_2_19:
  "calculate_exoplanet_probability (PyFloat (Finite 1)) (PyFloat (Finite 0)) \<noteq> Inr ''2.19%''"
  unfolding result_solar by simp

text \<open>
  Claim C4, amended. \<open>calculate_exoplanet_probability(1.0, 0.0)\<close> returns exactly the
  string \<^verbatim>\<open>2.21%\<close>: the metallicity term is 1, the mass term lies in
  \<open>[0.10632, 0.10633]\<close>, \<open>Phi\<close> in \<open>[0.022550, 0.022551]\<close>, the base in
  \<open>[1.019373, 1.019374]\<close>, the exponent in \<open>[-1.164009, -1.164008]\<close>, \<open>eq_minus_Phi\<close> in
  \<open>[0.977912, 0.977913]\<close> and \<open>P * 100\<close> in \<open>[2.2087, 2.2088]\<close>.
\<close>

theorem solar_result:
  "calculate_exoplanet_probability (PyFloat (Finite 1)) (PyFloat (Finite 0)) = Inr ''2.21%''
   \<and> Z_term (Finite 0) = Finite 1
   \<and> (\<exists>m. M_term (Finite 1) = Finite m \<and> 10632 / 100000 \<le> m \<and> m \<le> 10633 / 100000)
   \<and> (\<exists>p. Phi (Finite 1) (Finite 0) = Finite p \<and> 22550 / 1000000 \<le> p \<and> p \<le> 22551 / 1000000)
   \<and> (\<exists>b. base (Finite 1) (Finite 0) = Finite b \<and> 1019373 / 1000000 \<le> b \<and> b \<le> 1019374 / 1000000)
   \<and> (\<exists>c. py_truediv (Finite 1) (fsub (Finite 1) Q_INDEX) = Inr (Finite c)
          \<and> - (1164009 / 1000000) \<le> c \<and> c \<le> - (1164008 / 1000000))
   \<and> (\<exists>e. eq_minus_Phi (Finite 1) (Finite 0) = Inr (Finite e)
          \<and> 977912 / 1000000 \<le> e \<and> e \<le> 977913 / 1000000)
   \<and> (\<exists>pp. P_percent (Finite 1) (Finite 0) = Inr (Finite pp) \<and> 22087 / 10000 \<le> pp \<and> pp \<le> 22088 / 10000)"
proof -
  have m: "\<exists>m. M_term (Finite 1) = Finite m \<and> 10632 / 100000 \<le> m \<and> m \<le> 10633 / 100000"
    using M_term_solar by (auto intro: order_trans)
  have p: "\<exists>p. Phi (Finite 1) (Finite 0) = Finite p \<and> 22550 / 1000000 \<le> p \<and> p \<le> 22551 / 1000000"
    using Phi_solar by (auto intro: order_trans)
  have b: "\<exists>b. base (Finite 1) (Finite 0) = Finite b \<and> 1019373 / 1000000 \<le> b \<and> b \<le> 1019374 / 1000000"
    unfolding base_is_base0 using base0_solar by (auto intro: order_trans)
  have c: "\<exists>c. py_truediv (Finite 1) (fsub (Finite 1) Q_INDEX) = Inr (Finite c)
          \<and> - (1164009 / 1000000) \<le> c \<and> c \<le> - (1164008 / 1000000)"
    unfolding exponent_value using exponent_tight by simp
  have e: "\<exists>e. eq_minus_Phi (Finite 1) (Finite 0) = Inr (Finite e)
          \<and> 977912 / 1000000 \<le> e \<and> e \<le> 977913 / 1000000"
    using eq_minus_Phi_solar by (auto intro: order_trans)
  have pp: "\<exists>pp. P_percent (Finite 1) (Finite 0) = Inr (Finite pp) \<and> 22087 / 10000 \<le> pp \<and> pp \<le> 22088 / 10000"
    using P_percent_solar by (auto intro: order_trans)
  show ?thesis using result_solar Z_term_0 m p b c e pp by blast
qed

section \<open>The clamp of the mass\<close>

lemma rnd_strictly_below:
  assumes "rnd y = y" "1 / 2 ^ 1000 \<le> y" "x \<le> y * (1 - 1 / 2 ^ 17)"
  shows "rnd x < y"
proof -
  have ypos: "0 < y" using assms(2) by (rule less_le_trans[rotated]) simp
  have "2 powr real_of_int (- 1000) \<le> y" using assms(2) by (simp add: powr_minus_divide)
  then have "real_of_int (- 1000) \<le> log 2 y" using ypos by (simp only: le_log_iff)
  then have "- 1000 \<le> \<lfloor>log 2 y\<rfloor>" by (simp only: le_floor_iff)
  then have b: "- 1022 < binade y" unfolding binade_def using ypos by simp
  define k where "k = round_half_even (y / ulp y)"
  have yk: "y = of_int k * ulp y" using assms(1) ypos unfolding rnd_def k_def by simp
  have "2 powr real_of_int (binade y) / ulp y \<le> y / ulp y"
    using binade_lower[OF ypos b] ulp_pos[of y] by (simp add: divide_right_mono)
  moreover have "2 powr real_of_int (binade y) / ulp y = of_int (2 ^ 52)"
    unfolding ulp_def by (simp add: powr_diff)
  ultimately have "round_half_even (of_int (2 ^ 52)) \<le> k"
    unfolding k_def by (metis round_half_even_mono)
  then have k52: "2 ^ 52 \<le> k" by simp
  have "y / ulp y < 2 powr real_of_int (binade y + 1) / ulp y"
    using binade_upper[OF ypos] ulp_pos[of y] by (simp add: divide_strict_right_mono)
  also have "\<dots> = of_int (2 ^ 53)" unfolding ulp_def by (simp add: powr_diff powr_add)
  finally have "k \<le> round_half_even (of_int (2 ^ 53))"
    unfolding k_def by (intro round_half_even_mono) simp
  then have k53: "k \<le> 2 ^ 53" by simp
  define z where "z = of_int (k - 1) * 2 powr real_of_int (binade y - 52)"
  have zr: "rnd z = z" unfolding z_def using k52 k53 b by (intro rnd_dyadic) simp_all
  have zy: "z = y - ulp y" unfolding z_def using yk unfolding ulp_def by (simp add: algebra_simps)
  have "(2 :: real) ^ 17 \<le> of_int k"
  proof -
    have "(2 :: int) ^ 17 \<le> 2 ^ 52" by simp
    then have "(2 :: int) ^ 17 \<le> k" using k52 by (rule order_trans)
    then have "real_of_int (2 ^ 17) \<le> of_int k" by (simp only: of_int_le_iff)
    then show ?thesis by simp
  qed
  then have "2 ^ 17 * ulp y \<le> of_int k * ulp y" using ulp_pos[of y] by (intro mult_right_mono) simp_all
  then have "2 ^ 17 * ulp y \<le> y" using yk by simp
  then have "ulp y \<le> y / 2 ^ 17" by (simp add: pos_le_divide_eq mult.commute)
  then have "y * (1 - 1 / 2 ^ 17) \<le> z" unfolding zy by (simp add: algebra_simps)
  then have "x \<le> z" using assms(3) by simp
  then have "rnd x \<le> z" using zr by (rule rnd_le)
  moreover have "z < y" unfolding zy using ulp_pos[of y] by simp
  ultimately show ?thesis by simp
qed

lemma clamp_power:
  "\<exists>p. np_power (lit (1 / 100000)) ALPHA_MASS = Finite p \<and> 1 / 2 ^ 17 \<le> p \<and> p \<le> 1 \<and> rnd p = p"
proof -
  define c where "c = rnd (1 / 100000)"
  define al where "al = rnd (9825 / 10000)"
  have c: "1 / 2 ^ 17 \<le> c" "c \<le> 1 / 2 ^ 16" using clamp_literal_pos unfolding c_def by simp_all
  have al: "1 / 2 \<le> al" "al \<le> 1" using alpha_bounds unfolding al_def by simp_all
  have cpos: "0 < c" using c(1) by (rule less_le_trans[rotated]) simp
  have c1: "c < 1" using c(2) by (rule le_less_trans) simp
  have "c powr 1 \<le> c powr al" using al cpos c1 by (intro powr_mono') simp_all
  then have lo: "1 / 2 ^ 17 \<le> c powr al" using c(1) cpos by simp
  have hi: "c powr al \<le> 1" using al cpos c1 by (intro powr_le1) simp_all
  have r: "rnd (1 / 2 ^ 17) = 1 / 2 ^ 17" using rnd_int_div_pow2[of 1 17] by simp
  have b: "1 / 2 ^ 17 \<le> rnd (c powr al) \<and> rnd (c powr al) \<le> 1"
    by (rule rnd_between[OF lo hi r rnd_1])
  then have "fl (c powr al) = Finite (rnd (c powr al))" by (rule fl_Finite_bounded) simp_all
  then have "np_power (lit (1 / 100000)) ALPHA_MASS = Finite (rnd (c powr al))"
    unfolding np_power_def ALPHA_MASS_def lit_def c_def[symmetric] al_def[symmetric]
    using al cpos c1 by simp
  then show ?thesis using b rnd_idem[of "c powr al"] by blast
qed

lemma exp_factor_at_zero: "np_exp (fmul (fneg BETA_MASS) (Finite 0)) = Finite 1"
  unfolding BETA_MASS_def lit_def by (simp add: fl_def)

lemma exp_factor_at_clamp:
  "\<exists>e. np_exp (fmul (fneg BETA_MASS) (lit (1 / 100000))) = Finite e \<and> 0 \<le> e \<and> e \<le> 1 - 1 / 2 ^ 17"
proof -
  define c where "c = rnd (1 / 100000)"
  define be where "be = rnd (22413 / 10000)"
  have c: "1 / 2 ^ 17 \<le> c" "c \<le> 1 / 2 ^ 16" using clamp_literal_pos unfolding c_def by simp_all
  have be: "2 \<le> be" "be \<le> 3" using beta_bounds unfolding be_def by simp_all
  have "2 * (1 / 2 ^ 17) \<le> be * c" using be c by (intro mult_mono) simp_all
  then have hi: "- be * c \<le> - (1 / 2 ^ 16)" by simp
  have "be * c \<le> 3 * (1 / 2 ^ 16)" using be c by (intro mult_mono) simp_all
  then have lo: "- (3 / 2 ^ 16) \<le> - be * c" by simp
  have r1: "rnd (- (3 / 2 ^ 16)) = - (3 / 2 ^ 16)" using rnd_int_div_pow2[of "- 3" 16] by simp
  have r2: "rnd (- (1 / 2 ^ 16)) = - (1 / 2 ^ 16)" using rnd_int_div_pow2[of "- 1" 16] by simp
  have "\<exists>t. fl (- be * c) = Finite t \<and> - (3 / 2 ^ 16) \<le> t \<and> t \<le> - (1 / 2 ^ 16)"
    by (rule fl_enclose[OF lo hi r1 r2]) simp_all
  then obtain t where t: "fl (- be * c) = Finite t" "t \<le> - (1 / 2 ^ 16)" by blast
  have "exp t \<le> exp (- (1 / 2 ^ 16))" using t(2) by simp
  moreover have "exp (- (1 / 2 ^ 16)) \<le> (1 - 1 / 2 ^ 17 :: real)"
    by (rule exp_neg_upper6) (simp_all add: power_divide)
  ultimately have hi2: "exp t \<le> 1 - 1 / 2 ^ 17" by (rule order_trans)
  have r3: "rnd (1 - 1 / 2 ^ 17) = 1 - 1 / 2 ^ 17" using rnd_int_div_pow2[of "2 ^ 17 - 1" 17] by simp
  have "\<exists>e. fl (exp t) = Finite e \<and> 0 \<le> e \<and> e \<le> 1 - 1 / 2 ^ 17"
    by (rule fl_enclose[OF _ hi2 rnd_0 r3]) simp_all
  then show ?thesis
    unfolding BETA_MASS_def lit_def c_def[symmetric] be_def[symmetric] using t(1) by simp
qed

lemma below_clamp_at_zero: "flt (Finite 0) (lit (1 / 100000))"
proof -
  have "1 / 2 ^ 17 \<le> rnd (1 / 100000)" using clamp_literal_pos by simp
  then have "0 < rnd (1 / 100000)" by (rule less_le_trans[rotated]) simp
  then show ?thesis unfolding lit_def by simp
qed

lemma M_term_at_zero:
  "\<exists>p. M_term (Finite 0) = Finite p \<and> np_power (lit (1 / 100000)) ALPHA_MASS = Finite p
       \<and> 1 / 2 ^ 17 \<le> p \<and> p \<le> 1 \<and> rnd p = p"
proof -
  obtain p where p: "np_power (lit (1 / 100000)) ALPHA_MASS = Finite p" "1 / 2 ^ 17 \<le> p" "p \<le> 1" "rnd p = p"
    using clamp_power by blast
  have mx: "py_max (Finite 0) (lit (1 / 100000)) = lit (1 / 100000)"
    unfolding py_max_def using below_clamp_at_zero by simp
  have "M_term (Finite 0) = fmul (Finite p) (Finite 1)"
    unfolding M_term_def mx exp_factor_at_zero p(1) ..
  moreover have "fl p = Finite p"
  proof -
    have "0 \<le> rnd p \<and> rnd p \<le> 1" using p(2,3,4) by simp
    then have "fl p = Finite (rnd p)" by (rule fl_Finite_bounded) simp_all
    then show ?thesis using p(4) by simp
  qed
  ultimately have "M_term (Finite 0) = Finite p" by simp
  then show ?thesis using p by blast
qed

lemma M_term_not_unclamped_power:
  "M_term (Finite 0) \<noteq> fmul (np_power (Finite 0) ALPHA_MASS) (np_exp (fmul (fneg BETA_MASS) (Finite 0)))"
proof -
  obtain p where p: "M_term (Finite 0) = Finite p" "1 / 2 ^ 17 \<le> p" using M_term_at_zero by blast
  have "0 < p" using p(2) by (rule less_le_trans[rotated]) simp
  moreover have "np_power (Finite 0) ALPHA_MASS = Finite 0"
    unfolding np_power_def ALPHA_MASS_def lit_def using alpha_bounds by simp
  ultimately show ?thesis unfolding p(1) exp_factor_at_zero by (simp add: fl_def)
qed

lemma M_term_not_clamped_exp:
  "M_term (Finite 0) \<noteq> fmul (np_power (lit (1 / 100000)) ALPHA_MASS)
                            (np_exp (fmul (fneg BETA_MASS) (lit (1 / 100000))))"
proof -
  obtain p where p: "M_term (Finite 0) = Finite p" "np_power (lit (1 / 100000)) ALPHA_MASS = Finite p"
      "1 / 2 ^ 17 \<le> p" "p \<le> 1" "rnd p = p"
    using M_term_at_zero by blast
  obtain e where e: "np_exp (fmul (fneg BETA_MASS) (lit (1 / 100000))) = Finite e" "0 \<le> e" "e \<le> 1 - 1 / 2 ^ 17"
    using exp_factor_at_clamp by blast
  have p0: "0 \<le> p" using p(3) by (rule order_trans[rotated]) simp
  have pe: "p * e \<le> p * (1 - 1 / 2 ^ 17)" using e(3) p0 by (rule mult_left_mono)
  have "(1 :: real) / 2 ^ 1000 \<le> 1 / 2 ^ 17" by simp
  then have "1 / 2 ^ 1000 \<le> p" using p(3) by (rule order_trans)
  then have lt: "rnd (p * e) < p" using p(5) pe by (intro rnd_strictly_below)
  have "0 \<le> p * e" using p0 e(2) by simp
  then have "0 \<le> rnd (p * e)" by (rule rnd_nonneg)
  then have "0 \<le> rnd (p * e) \<and> rnd (p * e) \<le> 1" using lt p(4) by simp
  then have "fl (p * e) = Finite (rnd (p * e))" by (rule fl_Finite_bounded) simp_all
  then show ?thesis unfolding p(1,2) e(1) using lt by simp
qed

lemma Z_term_at_clamp_not_one: "Z_term (Finite 0) \<noteq> Z_term (lit (1 / 100000))"
proof -
  define c where "c = rnd (1 / 100000)"
  define a where "a = rnd (10789 / 10000)"
  have c: "1 / 2 ^ 17 \<le> c" "c \<le> 1 / 2 ^ 16" using clamp_literal_pos unfolding c_def by simp_all
  have a: "1 \<le> a" "a \<le> 2" using A_bounds unfolding a_def by simp_all
  have "1 * (1 / 2 ^ 17) \<le> a * c" using a c by (intro mult_mono) simp_all
  then have lo: "1 / 2 ^ 17 \<le> a * c" by simp
  have "a * c \<le> 2 * (1 / 2 ^ 16)" using a c by (intro mult_mono) simp_all
  then have hi: "a * c \<le> 1" by simp
  have r: "rnd (1 / 2 ^ 17) = 1 / 2 ^ 17" using rnd_int_div_pow2[of 1 17] by simp
  have "\<exists>y. fl (a * c) = Finite y \<and> 1 / 2 ^ 17 \<le> y \<and> y \<le> 1"
    by (rule fl_enclose[OF lo hi r rnd_1]) simp_all
  then obtain y where y: "fl (a * c) = Finite y" "1 / 2 ^ 17 \<le> y" "y \<le> 1" by blast
  have ypos: "0 < y" using y(2) by (rule less_le_trans[rotated]) simp
  have "exp 1 \<le> (10 :: real)" using exp_le by simp
  then have "1 \<le> ln (10 :: real)" by (simp add: ln_ge_iff)
  then have "y * 1 \<le> y * ln 10" using ypos by (intro mult_left_mono) simp_all
  then have "exp y \<le> exp (y * ln 10)" by simp
  also have "\<dots> = 10 powr y" by (simp add: powr_def)
  finally have "1 + y \<le> 10 powr y" using exp_ge_add_one_self[of y] by linarith
  then have lo2: "1 + 1 / 2 ^ 17 \<le> 10 powr y" using y(2) by simp
  have "10 powr y \<le> 10 powr 1" using y(3) by (intro powr_mono) simp_all
  then have hi2: "10 powr y \<le> 16" by simp
  have r1: "rnd (1 + 1 / 2 ^ 17) = 1 + 1 / 2 ^ 17" using rnd_int_div_pow2[of "2 ^ 17 + 1" 17] by simp
  have r2: "rnd 16 = 16" by (simp add: rnd_numeral_small)
  have "\<exists>z. fl (10 powr y) = Finite z \<and> 1 + 1 / 2 ^ 17 \<le> z \<and> z \<le> 16"
    by (rule fl_enclose[OF lo2 hi2 r1 r2]) simp_all
  then obtain z where z: "fl (10 powr y) = Finite z" "1 + 1 / 2 ^ 17 \<le> z" by blast
  have "Z_term (lit (1 / 100000)) = Finite z"
    unfolding Z_term_def A_MET_def lit_def a_def[symmetric] c_def[symmetric] np_power_def
    using y(1) ypos z(1) by simp
  moreover have "z \<noteq> 1" using z(2) by auto
  ultimately show ?thesis unfolding Z_term_0 by simp
qed

text \<open>
  Claim C5. In the mass term the power factor takes the clamped mass \<open>max(M, 1e-5)\<close>, that
  is \<open>1e-5\<close> for every \<open>M\<close> below \<open>1e-5\<close> and \<open>M\<close> itself otherwise, and the exponential
  factor takes the original \<open>M\<close> in both cases; below \<open>1e-5\<close> the two arguments differ.
  The metallicity enters unclamped. The asymmetry shows at \<open>M = 0\<close>: the mass term is
  neither what the power of the unclamped mass would give nor what the exponential of the
  clamped mass would give, and the metallicity term at 0 is not the one at \<open>1e-5\<close>.
\<close>

theorem M_term_mass_arguments:
  "(flt M (lit (1 / 100000)) \<longrightarrow>
      M_term M = fmul (np_power (lit (1 / 100000)) ALPHA_MASS) (np_exp (fmul (fneg BETA_MASS) M))
      \<and> lit (1 / 100000) \<noteq> M)
   \<and> (\<not> flt M (lit (1 / 100000)) \<longrightarrow>
      M_term M = fmul (np_power M ALPHA_MASS) (np_exp (fmul (fneg BETA_MASS) M)))
   \<and> Z_term Z = np_power (Finite 10) (fmul A_MET Z)
   \<and> M_term (Finite 0)
        \<noteq> fmul (np_power (Finite 0) ALPHA_MASS) (np_exp (fmul (fneg BETA_MASS) (Finite 0)))
   \<and> M_term (Finite 0)
        \<noteq> fmul (np_power (lit (1 / 100000)) ALPHA_MASS)
                 (np_exp (fmul (fneg BETA_MASS) (lit (1 / 100000))))
   \<and> Z_term (Finite 0) \<noteq> Z_term (lit (1 / 100000))"
proof -
  have a: "lit (1 / 100000) \<noteq> M" if "flt M (lit (1 / 100000))"
    using that unfolding lit_def by (cases M) auto
  have b: "M_term M = fmul (np_power (lit (1 / 100000)) ALPHA_MASS) (np_exp (fmul (fneg BETA_MASS) M))"
    if "flt M (lit (1 / 100000))"
    unfolding M_term_def py_max_def using that by simp
  have c: "M_term M = fmul (np_power M ALPHA_MASS) (np_exp (fmul (fneg BETA_MASS) M))"
    if "\<not> flt M (lit (1 / 100000))"
    unfolding M_term_def py_max_def using that by simp
  have d: "Z_term Z = np_power (Finite 10) (fmul A_MET Z)" unfolding Z_term_def ..
  show ?thesis
    using a b c d M_term_not_unclamped_power M_term_not_clamped_exp Z_term_at_clamp_not_one
    by blast
qed

theorem M_term_mass_arguments_witness:
  "flt (Finite 0) (lit (1 / 100000))
   \<and> M_term (Finite 0) = fmul (np_power (lit (1 / 100000)) ALPHA_MASS)
                              (np_exp (fmul (fneg BETA_MASS) (Finite 0)))
   \<and> lit (1 / 100000) \<noteq> Finite 0
   \<and> \<not> flt (Finite 1) (lit (1 / 100000))
   \<and> M_term (Finite 1) = fmul (np_power (Finite 1) ALPHA_MASS)
                              (np_exp (fmul (fneg BETA_MASS) (Finite 1)))"
proof -
  have a: "flt (Finite 0) (lit (1 / 100000))" by (rule below_clamp_at_zero)
  have "rnd (1 / 100000) \<le> 1 / 2 ^ 16" using clamp_literal_pos by simp
  then have "rnd (1 / 100000) \<le> 1" by (rule order_trans) simp
  then have b: "\<not> flt (Finite 1) (lit (1 / 100000))" unfolding lit_def by simp
  show ?thesis
    using a b M_term_mass_arguments[of "Finite 0" "Finite 0"] M_term_mass_arguments[of "Finite 1" "Finite 0"]
    by blast
qed

section \<open>Two calls in a row\<close>

lemma call_leaves_globals: "snd (call_calculate_exoplanet_probability g stellar_mass metallicity) = g"
  unfolding call_calculate_exoplanet_probability_def Let_def by (simp split: sum.splits)

lemma call_loaded:
  "call_calculate_exoplanet_probability module_loaded stellar_mass metallicity
     = (calculate_exoplanet_probability stellar_mass metallicity, module_loaded)"
  unfolding call_calculate_exoplanet_probability_def calculate_exoplanet_probability_def
    P_percent_def P_final_def eq_minus_Phi_def base_def clamp_fires_def base0_def Phi_def
    M_term_def Z_term_def Q_INDEX_def KAPPA_def A_MET_def ALPHA_MASS_def BETA_MASS_def
    module_loaded_def Let_def
  by (simp split: sum.splits)

text \<open>
  Claim C7. Two calls of \<open>calculate_exoplanet_probability\<close> with identical inputs return
  identical strings: whatever the module's globals hold, a call leaves them as they were,
  so the second call reads what the first read and returns the same result. On the
  loaded module a call returns the value of the function \<open>calculate_exoplanet_probability\<close>.
\<close>

theorem calculate_deterministic:
  assumes "call_calculate_exoplanet_probability g stellar_mass metallicity = (r1, g1)"
    and "call_calculate_exoplanet_probability g1 stellar_mass metallicity = (r2, g2)"
  shows "r2 = r1 \<and> g1 = g \<and> g2 = g
         \<and> call_calculate_exoplanet_probability module_loaded stellar_mass metallicity
             = (calculate_exoplanet_probability stellar_mass metallicity, module_loaded)"
proof -
  have a: "g1 = g" using call_leaves_globals[of g stellar_mass metallicity] assms(1) by simp
  have b: "g2 = g1" using call_leaves_globals[of g1 stellar_mass metallicity] assms(2) by simp
  have "r2 = r1" using assms unfolding a by simp
  then show ?thesis using a b call_loaded by simp
qed

theorem calculate_deterministic_witness:
  "call_calculate_exoplanet_probability module_loaded (PyFloat (Finite 1)) (PyFloat (Finite 0))
     = (Inr ''2.21%'', module_loaded)
   \<and> call_calculate_exoplanet_probability module_loaded (PyFloat (Finite 1)) (PyFloat (Finite 0))
     = (calculate_exoplanet_probability (PyFloat (Finite 1)) (PyFloat (Finite 0)), module_loaded)"
proof -
  have h: "call_calculate_exoplanet_probability module_loaded (PyFloat (Finite 1)) (PyFloat (Finite 0))
     = (Inr ''2.21%'', module_loaded)"
    unfolding call_loaded result_solar ..
  show ?thesis using h calculate_deterministic[OF h h] by simp
qed

end
